(* ===== verification/Prelude.thy ===== *)
theory Prelude
  imports Main "HOL-Library.Word"
begin

text \<open>
  Shared ground of the development: the C integer types as words, the result type of
  every fallible operation with its sequencing combinator, bounds-checked access to byte
  arrays, and a small weakest-precondition calculus over results that carries the
  component proofs.  An operation of the code that can fail an \<open>assert\<close>, follow a null
  pointer or leave an array is a function into \<open>'a res\<close>; \<open>wp E m Q\<close> says that \<open>m\<close>
  either yields a value that satisfies \<open>Q\<close> or stops with an error that \<open>E\<close> admits.
\<close>

unbundle bit_operations_syntax

type_synonym u8 = "8 word"
type_synonym u16 = "16 word"
type_synonym u32 = "32 word"

section \<open>Results of fallible C code\<close>

datatype error =
    AssertFail string
  | OutOfBounds
  | NullDeref
  | OutOfFuel

type_synonym 'a res = "error + 'a"

definition bnd :: "'a res \<Rightarrow> ('a \<Rightarrow> 'b res) \<Rightarrow> 'b res" where
  "bnd m f = (case m of Inl e \<Rightarrow> Inl e | Inr x \<Rightarrow> f x)"

definition cassert :: "string \<Rightarrow> bool \<Rightarrow> unit res" where
  "cassert msg b = (if b then Inr () else Inl (AssertFail msg))"

definition nonnull :: "'a option \<Rightarrow> 'a res" where
  "nonnull p = (case p of None \<Rightarrow> Inl NullDeref | Some x \<Rightarrow> Inr x)"

named_theorems wp_simps "unfolding rules of the result calculus"
named_theorems wp_intro "the contracts of the operations"

definition wp :: "(error \<Rightarrow> bool) \<Rightarrow> 'a res \<Rightarrow> ('a \<Rightarrow> bool) \<Rightarrow> bool" where
  "wp E m Q = (case m of Inl e \<Rightarrow> E e | Inr x \<Rightarrow> Q x)"

text \<open>
  \<open>OutOfFuel\<close> is the value of a loop over a linked list that has not ended within the given
  number of rounds; the pool invariant of \<open>Pool\<close> excludes it.

  The readings of \<open>wp\<close> used below: \<open>no_error\<close> (the operation returns),
  \<open>assert_only\<close> (it returns or stops at an \<open>assert\<close>, but never touches memory it does
  not own) and \<open>any_error\<close> (partial correctness).
\<close>

definition no_error :: "error \<Rightarrow> bool" where
  "no_error e = False"

fun assert_only :: "error \<Rightarrow> bool" where
  "assert_only (AssertFail _) = True"
| "assert_only OutOfBounds = False"
| "assert_only NullDeref = False"
| "assert_only OutOfFuel = False"

text \<open>
  \<open>safe_error\<close> also admits reading or writing beyond an array; it excludes following a null
  pointer and a walk along a list that does not end.
\<close>

fun safe_error :: "error \<Rightarrow> bool" where
  "safe_error (AssertFail _) = True"
| "safe_error OutOfBounds = True"
| "safe_error NullDeref = False"
| "safe_error OutOfFuel = False"

definition any_error :: "error \<Rightarrow> bool" where
  "any_error e = True"

declare no_error_def [simp] any_error_def [simp]

lemma bnd_Inr [simp]: "bnd (Inr x) f = f x"
  by (simp add: bnd_def)

lemma bnd_Inl [simp]: "bnd (Inl e) f = Inl e"
  by (simp add: bnd_def)

lemma bnd_eq_Inr_iff: "bnd m f = Inr y \<longleftrightarrow> (\<exists>x. m = Inr x \<and> f x = Inr y)"
  by (cases m) auto

lemma bnd_assoc: "bnd (bnd m f) g = bnd m (\<lambda>x. bnd (f x) g)"
  by (cases m) simp_all

lemma bnd_if: "bnd (if b then m else n) f = (if b then bnd m f else bnd n f)"
  by simp

lemma wp_Inr [simp, wp_simps]: "wp E (Inr x) Q = Q x"
  by (simp add: wp_def)

lemma wp_Inl [simp, wp_simps]: "wp E (Inl e) Q = E e"
  by (simp add: wp_def)

lemma wp_bnd [simp, wp_simps]: "wp E (bnd m f) Q = wp E m (\<lambda>x. wp E (f x) Q)"
  by (cases m) simp_all

lemma wp_cassert [simp, wp_simps]: "wp E (cassert msg b) Q = (if b then Q () else E (AssertFail msg))"
  by (simp add: cassert_def)

lemma wp_nonnull [wp_simps]:
  "wp E (nonnull p) Q = (case p of None \<Rightarrow> E NullDeref | Some x \<Rightarrow> Q x)"
  by (simp add: nonnull_def split: option.split)

lemma wp_nonnull_Some [simp]: "wp E (nonnull (Some x)) Q = Q x"
  by (simp add: nonnull_def)

lemma nonnull_simps [simp]: "nonnull (Some x) = Inr x" "nonnull None = Inl NullDeref"
  by (simp_all add: nonnull_def)

lemma cassert_simps [simp]: "cassert msg True = Inr ()" "cassert msg False = Inl (AssertFail msg)"
  by (simp_all add: cassert_def)

lemma wp_mono: "wp E m P \<Longrightarrow> (\<And>x. P x \<Longrightarrow> Q x) \<Longrightarrow> wp E m Q"
  by (cases m) simp_all

lemma wp_weaken: "wp E m P \<Longrightarrow> (\<And>e. E e \<Longrightarrow> F e) \<Longrightarrow> (\<And>x. P x \<Longrightarrow> Q x) \<Longrightarrow> wp F m Q"
  by (cases m) simp_all

lemma wp_conj: "wp E m P \<Longrightarrow> wp E m Q \<Longrightarrow> wp E m (\<lambda>x. P x \<and> Q x)"
  by (cases m) simp_all

lemma wp_conj_any: "wp E m P \<Longrightarrow> wp any_error m Q \<Longrightarrow> wp E m (\<lambda>x. P x \<and> Q x)"
  by (cases m) simp_all

lemma wp_any_error_True [simp]: "wp any_error m (\<lambda>x. True)"
  by (cases m) simp_all

lemma wp_no_error_iff: "wp no_error m Q \<longleftrightarrow> (\<exists>x. m = Inr x \<and> Q x)"
  by (cases m) simp_all

lemma wp_any_error_iff: "wp any_error m Q \<longleftrightarrow> (\<forall>x. m = Inr x \<longrightarrow> Q x)"
  by (cases m) simp_all

lemma wp_InrD: "wp E m Q \<Longrightarrow> m = Inr x \<Longrightarrow> Q x"
  by simp

section \<open>Byte arrays\<close>

text \<open>Reading and writing a C array: an index outside the array is an error value.\<close>

definition arr_get :: "'a list \<Rightarrow> nat \<Rightarrow> 'a res" where
  "arr_get xs i = (if i < length xs then Inr (xs ! i) else Inl OutOfBounds)"

definition arr_set :: "'a list \<Rightarrow> nat \<Rightarrow> 'a \<Rightarrow> 'a list res" where
  "arr_set xs i v = (if i < length xs then Inr (xs[i := v]) else Inl OutOfBounds)"

text \<open>Block copy, as \<open>memcpy\<close> or a run of consecutive stores.\<close>

definition arr_write :: "'a list \<Rightarrow> nat \<Rightarrow> 'a list \<Rightarrow> 'a list res" where
  "arr_write xs i vs =
     (if i + length vs \<le> length xs then Inr (take i xs @ vs @ drop (i + length vs) xs)
      else Inl OutOfBounds)"

text \<open>Reading at a C \<open>int\<close> index, which can be negative.\<close>

definition arr_geti :: "'a list \<Rightarrow> int \<Rightarrow> 'a res" where
  "arr_geti xs i = (if i < 0 then Inl OutOfBounds else arr_get xs (nat i))"

text \<open>A block of \<open>n\<close> elements read from position \<open>i\<close>.\<close>

definition arr_read :: "'a list \<Rightarrow> nat \<Rightarrow> nat \<Rightarrow> 'a list res" where
  "arr_read xs i n = (if i + n \<le> length xs then Inr (take n (drop i xs)) else Inl OutOfBounds)"

lemma arr_get_in [simp]: "i < length xs \<Longrightarrow> arr_get xs i = Inr (xs ! i)"
  by (simp add: arr_get_def)

lemma arr_set_in [simp]: "i < length xs \<Longrightarrow> arr_set xs i v = Inr (xs[i := v])"
  by (simp add: arr_set_def)

lemma arr_write_in [simp]:
  "i + length vs \<le> length xs \<Longrightarrow> arr_write xs i vs = Inr (take i xs @ vs @ drop (i + length vs) xs)"
  by (simp add: arr_write_def)

lemma arr_read_in [simp]: "i + n \<le> length xs \<Longrightarrow> arr_read xs i n = Inr (take n (drop i xs))"
  by (simp add: arr_read_def)

lemma arr_geti_in [simp]: "0 \<le> i \<Longrightarrow> nat i < length xs \<Longrightarrow> arr_geti xs i = Inr (xs ! nat i)"
  by (simp add: arr_geti_def)

lemma wp_arr_geti [simp, wp_simps]:
  "wp E (arr_geti xs i) Q =
     (if 0 \<le> i \<and> nat i < length xs then Q (xs ! nat i) else E OutOfBounds)"
  by (simp add: arr_geti_def arr_get_def)

lemma arr_get_Inr_iff [simp]: "arr_get xs i = Inr v \<longleftrightarrow> i < length xs \<and> v = xs ! i"
  by (auto simp: arr_get_def)

lemma arr_set_Inr_iff [simp]: "arr_set xs i v = Inr ys \<longleftrightarrow> i < length xs \<and> ys = xs[i := v]"
  by (auto simp: arr_set_def)

lemma wp_arr_get [simp, wp_simps]:
  "wp E (arr_get xs i) Q = (if i < length xs then Q (xs ! i) else E OutOfBounds)"
  by (simp add: arr_get_def)

lemma wp_arr_set [simp, wp_simps]:
  "wp E (arr_set xs i v) Q = (if i < length xs then Q (xs[i := v]) else E OutOfBounds)"
  by (simp add: arr_set_def)

lemma wp_arr_write [simp, wp_simps]:
  "wp E (arr_write xs i vs) Q =
     (if i + length vs \<le> length xs then Q (take i xs @ vs @ drop (i + length vs) xs)
      else E OutOfBounds)"
  by (simp add: arr_write_def)

lemma wp_arr_read [simp, wp_simps]:
  "wp E (arr_read xs i n) Q =
     (if i + n \<le> length xs then Q (take n (drop i xs)) else E OutOfBounds)"
  by (simp add: arr_read_def)

lemma split_at:
  assumes "n \<le> length xs"
  obtains pre post where "xs = pre @ post" "length pre = n" "length post = length xs - n"
  using assms that [of "take n xs" "drop n xs"] by simp

lemma length_ge_2E:
  assumes "2 \<le> length xs"
  obtains a b r where "xs = a # b # r"
proof -
  obtain a ys where 1: "xs = a # ys" "1 \<le> length ys" using assms by (cases xs) auto
  then obtain b r where "ys = b # r" by (cases ys) auto
  with 1 that show thesis by simp
qed

lemma length_ge_3E:
  assumes "3 \<le> length xs"
  obtains a b c r where "xs = a # b # c # r"
proof -
  obtain a ys where 1: "xs = a # ys" "2 \<le> length ys" using assms by (cases xs) auto
  from 1(2) obtain b c r where "ys = b # c # r" by (rule length_ge_2E)
  with 1 that show thesis by simp
qed

lemma list_update_Cons_numeral [simp]:
  "(x # xs)[numeral k := v] = x # xs[pred_numeral k := v]"
  by (simp add: numeral_eq_Suc)

section \<open>Words\<close>

text \<open>The C tests \<open>x & m\<close> used as a truth value.\<close>

definition has :: "'a::len word \<Rightarrow> 'a word \<Rightarrow> bool" where
  "has x m \<longleftrightarrow> x AND m \<noteq> 0"

text \<open>Conversion to \<open>uint8_t\<close> and back to a wider unsigned type.\<close>

abbreviation to_u8 :: "'a::len word \<Rightarrow> u8" where
  "to_u8 x \<equiv> ucast x"

abbreviation to_u16 :: "'a::len word \<Rightarrow> u16" where
  "to_u16 x \<equiv> ucast x"

abbreviation to_u32 :: "'a::len word \<Rightarrow> u32" where
  "to_u32 x \<equiv> ucast x"

lemma word_xor_eq_0_iff: "x XOR y = 0 \<longleftrightarrow> x = (y :: 'a::len word)"
proof
  assume "x XOR y = 0"
  then have "\<not> bit (x XOR y) n" for n by simp
  then show "x = y" by (intro bit_word_eqI) (simp add: bit_xor_iff)
qed simp

lemma unat_and_less: "unat m < k \<Longrightarrow> unat (x AND m :: 'a::len word) < k"
  using word_and_le1 [of x m] by (simp add: word_le_nat_alt)

lemma unat_ucast_up:
  "LENGTH('a) \<le> LENGTH('b) \<Longrightarrow> unat (ucast (w :: 'a::len word) :: 'b::len word) = unat w"
proof -
  assume le: "LENGTH('a) \<le> LENGTH('b)"
  have "unat w < 2 ^ LENGTH('a)" by (rule unsigned_less)
  also have "\<dots> \<le> (2 :: nat) ^ LENGTH('b)" using le by simp
  finally show ?thesis by (simp add: unsigned_ucast_eq take_bit_nat_eq_self)
qed

lemma unat_of_nat_small: "n < 2 ^ LENGTH('a) \<Longrightarrow> unat (of_nat n :: 'a::len word) = n"
  by (simp add: unat_of_nat)

lemma bit_7_iff: "bit (7 :: 'a::len word) k \<longleftrightarrow> k < 3 \<and> k < LENGTH('a)"
  using bit_mask_iff [of 3 k, where ?'a = "'a word"] by (auto simp: mask_numeral)

lemma bit_7f_iff: "bit (0x7f :: 'a::len word) k \<longleftrightarrow> k < 7 \<and> k < LENGTH('a)"
  using bit_mask_iff [of 7 k, where ?'a = "'a word"] by (auto simp: mask_numeral)

lemma less_power_bits: "x < 2 ^ n \<Longrightarrow> n \<le> k \<Longrightarrow> \<not> bit (x :: 'a::len word) k"
  by (metis bit_take_bit_iff less_mask_eq not_le take_bit_eq_mask)

lemma unat_u8_less [simp]: "unat (x :: u8) < 256"
  using unsigned_less [of x, where ?'a = nat] by simp

text \<open>A property of all bytes is checked by evaluating it on the 256 of them.\<close>

lemma u8_allI: "list_all (\<lambda>n. P (word_of_nat n)) [0..<256] \<Longrightarrow> P (x :: u8)"
proof -
  assume "list_all (\<lambda>n. P (word_of_nat n)) [0..<256]"
  then have "\<forall>n < 256. P (word_of_nat n)" by (auto simp: list_all_iff)
  moreover have "unat x < 256" using unsigned_less [of x, where ?'a = nat] by simp
  ultimately have "P (word_of_nat (unat x))" by blast
  then show ?thesis by simp
qed

lemma unat_u8_le [simp]: "unat (x :: u8) \<le> 255"
  using unat_u8_less [of x] by linarith

end
