(* ===== verification/Usb_Defs.thy ===== *)
theory Usb_Defs
  imports Prelude
begin

text \<open>
  The constants and enumerations of \<open>usbdpi.h\<close>, \<open>usb_transfer.h\<close>, \<open>usb_monitor.h\<close> and
  \<open>usbdpi_test.h\<close>.  An enumeration whose values the code only compares is a datatype with
  the source's constructors and a function to the C value; the test steps and the test
  number, which the code increments or casts from received data, are 32-bit words.
\<close>

section \<open>Sizes and intervals\<close>

definition USBDEV_MAX_PACKET_SIZE :: nat where [simp]: "USBDEV_MAX_PACKET_SIZE = 64"
definition USBDPI_MAX_DATA :: nat where [simp]: "USBDPI_MAX_DATA = 3 + 3 + 1 + USBDEV_MAX_PACKET_SIZE + 2"
definition USBDPI_NO_DATA_STAGE :: u8 where [simp]: "USBDPI_NO_DATA_STAGE = 0xff"
definition FRAME_INTERVAL :: u32 where [simp]: "FRAME_INTERVAL = 12000"
definition SENSE_AT :: u32 where [simp]: "SENSE_AT = 160"
definition USBDPI_MAX_ENDPOINTS :: nat where [simp]: "USBDPI_MAX_ENDPOINTS = 16"
definition USBDPI_MAX_STREAMS :: nat where [simp]: "USBDPI_MAX_STREAMS = USBDPI_MAX_ENDPOINTS - 1"
definition USBDPI_MAX_TRANSFERS :: nat where [simp]: "USBDPI_MAX_TRANSFERS = 0x20"
definition USBDPI_INTERVAL_SETUP_STAGE :: u32 where [simp]: "USBDPI_INTERVAL_SETUP_STAGE = 200"
definition USBDPI_MAX_TRIES :: u8 where [simp]: "USBDPI_MAX_TRIES = 3"
definition USBDEV_ADDRESS :: u8 where [simp]: "USBDEV_ADDRESS = 2"
definition UKDEV_ADDRESS :: u8 where [simp]: "UKDEV_ADDRESS = 6"

definition LOG_BIT :: u32 where [simp]: "LOG_BIT = 0x08"

section \<open>Transfer types and endpoints\<close>

definition USB_TRANSFER_TYPE_CONTROL :: u8 where [simp]: "USB_TRANSFER_TYPE_CONTROL = 0"
definition USB_TRANSFER_TYPE_ISOCHRONOUS :: u8 where [simp]: "USB_TRANSFER_TYPE_ISOCHRONOUS = 1"
definition USB_TRANSFER_TYPE_BULK :: u8 where [simp]: "USB_TRANSFER_TYPE_BULK = 2"
definition USB_TRANSFER_TYPE_INTERRUPT :: u8 where [simp]: "USB_TRANSFER_TYPE_INTERRUPT = 3"

definition ENDPOINT_ZERO :: u8 where [simp]: "ENDPOINT_ZERO = 0"
definition ENDPOINT_SERIAL0 :: u8 where [simp]: "ENDPOINT_SERIAL0 = 1"
definition ENDPOINT_ISOCHRONOUS :: u8 where [simp]: "ENDPOINT_ISOCHRONOUS = 3"
definition ENDPOINT_UNIMPLEMENTED :: u8 where [simp]: "ENDPOINT_UNIMPLEMENTED = 15"

section \<open>Signals between the device and the model\<close>

definition D2P_DP :: u32 where [simp]: "D2P_DP = 1024"
definition D2P_DP_EN :: u32 where [simp]: "D2P_DP_EN = 512"
definition D2P_DN :: u32 where [simp]: "D2P_DN = 256"
definition D2P_DN_EN :: u32 where [simp]: "D2P_DN_EN = 128"
definition D2P_D :: u32 where [simp]: "D2P_D = 64"
definition D2P_D_EN :: u32 where [simp]: "D2P_D_EN = 32"
definition D2P_SE0 :: u32 where [simp]: "D2P_SE0 = 16"
definition D2P_TX_USE_D_SE0 :: u32 where [simp]: "D2P_TX_USE_D_SE0 = 8"
definition D2P_DPPU :: u32 where [simp]: "D2P_DPPU = 4"
definition D2P_DNPU :: u32 where [simp]: "D2P_DNPU = 2"
definition D2P_RX_ENABLE :: u32 where [simp]: "D2P_RX_ENABLE = 1"
definition D2P_PU :: u32 where [simp]: "D2P_PU = 6"

definition P2D_SENSE :: u32 where [simp]: "P2D_SENSE = 1"
definition P2D_DN :: u32 where [simp]: "P2D_DN = 2"
definition P2D_DP :: u32 where [simp]: "P2D_DP = 4"
definition P2D_D :: u32 where [simp]: "P2D_D = 8"
definition P2D_OE :: u32 where [simp]: "P2D_OE = 0x10"

section \<open>Packet identifiers and requests\<close>

definition USB_SYNC :: u32 where [simp]: "USB_SYNC = 0x2A"

definition USB_PID_OUT :: u8 where [simp]: "USB_PID_OUT = 0xE1"
definition USB_PID_IN :: u8 where [simp]: "USB_PID_IN = 0x69"
definition USB_PID_SOF :: u8 where [simp]: "USB_PID_SOF = 0xA5"
definition USB_PID_SETUP :: u8 where [simp]: "USB_PID_SETUP = 0x2D"
definition USB_PID_DATA0 :: u8 where [simp]: "USB_PID_DATA0 = 0xC3"
definition USB_PID_DATA1 :: u8 where [simp]: "USB_PID_DATA1 = 0x4B"
definition USB_PID_ACK :: u8 where [simp]: "USB_PID_ACK = 0xD2"
definition USB_PID_NAK :: u8 where [simp]: "USB_PID_NAK = 0x5A"
definition USB_PID_STALL :: u8 where [simp]: "USB_PID_STALL = 0x1E"

definition USB_REQ_SET_ADDRESS :: u8 where [simp]: "USB_REQ_SET_ADDRESS = 0x05"
definition USB_REQ_GET_DESCRIPTOR :: u8 where [simp]: "USB_REQ_GET_DESCRIPTOR = 0x06"
definition USB_REQ_SET_CONFIGURATION :: u8 where [simp]: "USB_REQ_SET_CONFIGURATION = 0x09"
definition USB_DESC_TYPE_DEVICE :: u8 where [simp]: "USB_DESC_TYPE_DEVICE = 0x01"
definition USB_DESC_TYPE_CONFIGURATION :: u8 where [simp]: "USB_DESC_TYPE_CONFIGURATION = 0x02"
definition USBDPI_VENDOR_TEST_CONFIG :: u8 where [simp]: "USBDPI_VENDOR_TEST_CONFIG = 0x7C"

text \<open>\<open>DATA_TOGGLE_ADVANCE\<close>: the DATAx PID that follows \<open>pid\<close>.\<close>

definition DATA_TOGGLE_ADVANCE :: "u8 \<Rightarrow> u8" where
  "DATA_TOGGLE_ADVANCE pid = (if pid = USB_PID_DATA1 then USB_PID_DATA0 else USB_PID_DATA1)"

section \<open>Enumerations\<close>

datatype drv_state = ST_IDLE | ST_SEND | ST_GET | ST_SYNC | ST_EOP | ST_EOP0

fun drv_state_code :: "drv_state \<Rightarrow> u32" where
  "drv_state_code ST_IDLE = 0"
| "drv_state_code ST_SEND = 1"
| "drv_state_code ST_GET = 2"
| "drv_state_code ST_SYNC = 3"
| "drv_state_code ST_EOP = 4"
| "drv_state_code ST_EOP0 = 5"

datatype host_state =
    HS_STARTFRAME | HS_WAITACK | HS_SET_DATASTAGE | HS_DS_RXDATA | HS_DS_SENDACK
  | HS_DONEDADR | HS_REQDATA | HS_WAITDATA | HS_SENDACK | HS_WAIT_PKT | HS_ACKIFDATA
  | HS_SENDHI | HS_EMPTYDATA | HS_WAITACK2 | HS_STREAMOUT | HS_STREAMIN | HS_NEXTFRAME
  | HS_ERROR

fun host_state_code :: "host_state \<Rightarrow> u32" where
  "host_state_code HS_STARTFRAME = 0"
| "host_state_code HS_WAITACK = 1"
| "host_state_code HS_SET_DATASTAGE = 2"
| "host_state_code HS_DS_RXDATA = 3"
| "host_state_code HS_DS_SENDACK = 4"
| "host_state_code HS_DONEDADR = 5"
| "host_state_code HS_REQDATA = 6"
| "host_state_code HS_WAITDATA = 7"
| "host_state_code HS_SENDACK = 8"
| "host_state_code HS_WAIT_PKT = 9"
| "host_state_code HS_ACKIFDATA = 10"
| "host_state_code HS_SENDHI = 11"
| "host_state_code HS_EMPTYDATA = 12"
| "host_state_code HS_WAITACK2 = 13"
| "host_state_code HS_STREAMOUT = 14"
| "host_state_code HS_STREAMIN = 15"
| "host_state_code HS_NEXTFRAME = 16"
| "host_state_code HS_ERROR = 17"

datatype bus_state =
    kUsbIdle | kUsbControlSetup | kUsbControlSetupAck | kUsbControlDataOut
  | kUsbControlDataOutAck | kUsbControlStatusInToken | kUsbControlStatusInData
  | kUsbControlStatusInAck | kUsbControlDataInToken | kUsbControlDataInData
  | kUsbControlDataInAck | kUsbControlStatusOut | kUsbControlStatusOutAck
  | kUsbIsoOut | kUsbIsoInToken | kUsbIsoInData
  | kUsbBulkOut | kUsbBulkOutAck | kUsbBulkInToken | kUsbBulkInData
  | kUsbInterruptOut | kUsbInterruptOutAck | kUsbInterruptInToken | kUsbInterruptInData

fun bus_state_code :: "bus_state \<Rightarrow> u32" where
  "bus_state_code kUsbIdle = 0"
| "bus_state_code kUsbControlSetup = 1"
| "bus_state_code kUsbControlSetupAck = 2"
| "bus_state_code kUsbControlDataOut = 3"
| "bus_state_code kUsbControlDataOutAck = 4"
| "bus_state_code kUsbControlStatusInToken = 5"
| "bus_state_code kUsbControlStatusInData = 6"
| "bus_state_code kUsbControlStatusInAck = 7"
| "bus_state_code kUsbControlDataInToken = 8"
| "bus_state_code kUsbControlDataInData = 9"
| "bus_state_code kUsbControlDataInAck = 10"
| "bus_state_code kUsbControlStatusOut = 11"
| "bus_state_code kUsbControlStatusOutAck = 12"
| "bus_state_code kUsbIsoOut = 13"
| "bus_state_code kUsbIsoInToken = 14"
| "bus_state_code kUsbIsoInData = 15"
| "bus_state_code kUsbBulkOut = 16"
| "bus_state_code kUsbBulkOutAck = 17"
| "bus_state_code kUsbBulkInToken = 18"
| "bus_state_code kUsbBulkInData = 19"
| "bus_state_code kUsbInterruptOut = 20"
| "bus_state_code kUsbInterruptOutAck = 21"
| "bus_state_code kUsbInterruptInToken = 22"
| "bus_state_code kUsbInterruptInData = 23"

datatype mon_data_type =
  UsbMon_DataType_Sync | UsbMon_DataType_PID | UsbMon_DataType_Byte | UsbMon_DataType_EOP

text \<open>Test numbers: received as 16 bits from the device, so any value can occur.\<close>

definition kUsbTestNumberSmoke :: u32 where [simp]: "kUsbTestNumberSmoke = 0"
definition kUsbTestNumberStreams :: u32 where [simp]: "kUsbTestNumberStreams = 1"
definition kUsbTestNumberIso :: u32 where [simp]: "kUsbTestNumberIso = 2"
definition kUsbTestNumberMixed :: u32 where [simp]: "kUsbTestNumberMixed = 3"
definition kUsbTestNumberSuspend :: u32 where [simp]: "kUsbTestNumberSuspend = 4"
definition kUsbTestNumberExc :: u32 where [simp]: "kUsbTestNumberExc = 5"
definition kUsbTestNumberPinCfg :: u32 where [simp]: "kUsbTestNumberPinCfg = 6"

text \<open>Test steps: \<open>usbdpi_test_seq_next\<close> adds one to a step, so they are numbers.\<close>

definition STEP_BUS_RESET :: u32 where [simp]: "STEP_BUS_RESET = 0"
definition STEP_SET_DEVICE_ADDRESS :: u32 where [simp]: "STEP_SET_DEVICE_ADDRESS = 1"
definition STEP_GET_DEVICE_DESCRIPTOR :: u32 where [simp]: "STEP_GET_DEVICE_DESCRIPTOR = 2"
definition STEP_GET_CONFIG_DESCRIPTOR :: u32 where [simp]: "STEP_GET_CONFIG_DESCRIPTOR = 3"
definition STEP_GET_FULL_CONFIG_DESCRIPTOR :: u32 where [simp]: "STEP_GET_FULL_CONFIG_DESCRIPTOR = 4"
definition STEP_SET_DEVICE_CONFIG :: u32 where [simp]: "STEP_SET_DEVICE_CONFIG = 5"
definition STEP_GET_TEST_CONFIG :: u32 where [simp]: "STEP_GET_TEST_CONFIG = 6"
definition STEP_SET_TEST_STATUS :: u32 where [simp]: "STEP_SET_TEST_STATUS = 7"
definition STEP_FIRST_READ :: u32 where [simp]: "STEP_FIRST_READ = 8"
definition STEP_READ_BAUD :: u32 where [simp]: "STEP_READ_BAUD = 9"
definition STEP_SECOND_READ :: u32 where [simp]: "STEP_SECOND_READ = 10"
definition STEP_SET_BAUD :: u32 where [simp]: "STEP_SET_BAUD = 11"
definition STEP_THIRD_READ :: u32 where [simp]: "STEP_THIRD_READ = 12"
definition STEP_TEST_ISO1 :: u32 where [simp]: "STEP_TEST_ISO1 = 13"
definition STEP_TEST_ISO2 :: u32 where [simp]: "STEP_TEST_ISO2 = 14"
definition STEP_ENDPT_UNIMPL_SETUP :: u32 where [simp]: "STEP_ENDPT_UNIMPL_SETUP = 15"
definition STEP_ENDPT_UNIMPL_OUT :: u32 where [simp]: "STEP_ENDPT_UNIMPL_OUT = 16"
definition STEP_ENDPT_UNIMPL_IN :: u32 where [simp]: "STEP_ENDPT_UNIMPL_IN = 17"
definition STEP_DEVICE_UK_SETUP :: u32 where [simp]: "STEP_DEVICE_UK_SETUP = 18"
definition STEP_IDLE_START :: u32 where [simp]: "STEP_IDLE_START = 19"
definition STEP_IDLE_END :: u32 where [simp]: "STEP_IDLE_END = STEP_IDLE_START + 4"
definition STEP_STREAM_SERVICE :: u32 where [simp]: "STEP_STREAM_SERVICE = 0x20"
definition STEP_BUS_DISCONNECT :: u32 where [simp]: "STEP_BUS_DISCONNECT = 0x7f"

end
