(* ===== verification/Crc.thy ===== *)
theory Crc
  imports Prelude
begin

text \<open>
  The CRC generators of \<open>usb_crc.c\<close>: the big-endian \<open>CRC5_MSBfirst\<close>, the little-endian
  \<open>CRC5\<close> used for tokens and \<open>CRC16\<close> used for data fields, bit by bit as the code
  computes them.  The reference they are proved equal to is polynomial long division over
  GF(2) on bit lists; from it follow the constant receiver residue and the detection of
  every error burst no longer than the checksum.
\<close>

section \<open>The code\<close>

text \<open>One pass of the \<open>while (iBitcnt--)\<close> loop of each routine; the count is the fuel.\<close>

fun crc5_msb_loop :: "nat \<Rightarrow> u32 \<Rightarrow> u32 \<Rightarrow> u32" where
  "crc5_msb_loop 0 udata crc5 = crc5"
| "crc5_msb_loop (Suc n) udata crc5 =
     crc5_msb_loop n (push_bit 1 udata)
       (if has (udata XOR crc5) (push_bit 31 1) then push_bit 1 crc5 XOR push_bit 27 5
        else push_bit 1 crc5)"

definition CRC5_MSBfirst :: "u32 \<Rightarrow> int \<Rightarrow> u32" where
  "CRC5_MSBfirst dwInput iBitcnt =
     (if iBitcnt < 1 \<or> iBitcnt > 32 then 0xffffffff
      else let udata = push_bit (nat (32 - iBitcnt)) dwInput;
               crc5 = crc5_msb_loop (nat iBitcnt) udata (push_bit 27 0x1f)
           in drop_bit 27 crc5 XOR 0x1f)"

fun crc5_loop :: "nat \<Rightarrow> u32 \<Rightarrow> u32 \<Rightarrow> u32" where
  "crc5_loop 0 udata crc5 = crc5"
| "crc5_loop (Suc n) udata crc5 =
     crc5_loop n (drop_bit 1 udata)
       (if has (udata XOR crc5) 1 then drop_bit 1 crc5 XOR 0x14 else drop_bit 1 crc5)"

definition CRC5 :: "u32 \<Rightarrow> int \<Rightarrow> u32" where
  "CRC5 dwInput iBitcnt =
     (if iBitcnt < 1 \<or> iBitcnt > 32 then 0xffffffff
      else crc5_loop (nat iBitcnt) dwInput 0x1f XOR 0x1f)"

fun crc16_byte_loop :: "nat \<Rightarrow> u32 \<Rightarrow> u32 \<Rightarrow> u32" where
  "crc16_byte_loop 0 udata crc16 = crc16"
| "crc16_byte_loop (Suc n) udata crc16 =
     crc16_byte_loop n (drop_bit 1 udata)
       (if has (udata XOR crc16) 1 then drop_bit 1 crc16 XOR 0xA001 else drop_bit 1 crc16)"

fun crc16_loop :: "u8 list \<Rightarrow> u32 \<Rightarrow> u32" where
  "crc16_loop [] crc16 = crc16"
| "crc16_loop (d # ds) crc16 = crc16_loop ds (crc16_byte_loop 8 (to_u32 d) crc16)"

definition crc16_bytes :: "u8 list \<Rightarrow> u32" where
  "crc16_bytes ds = crc16_loop ds 0xffff XOR 0xffff"

text \<open>
  The C entry point reads \<open>bytes\<close> bytes from \<open>data\<close>; a negative count reads none.  The
  pointer is the list of bytes from it to the end of its array.
\<close>

definition CRC16 :: "u8 list \<Rightarrow> int \<Rightarrow> u32 res" where
  "CRC16 data bytes = bnd (arr_read data 0 (nat bytes)) (\<lambda>ds. Inr (crc16_bytes ds))"

section \<open>The reference: long division over GF(2)\<close>

definition bxor :: "bool list \<Rightarrow> bool list \<Rightarrow> bool list" where
  "bxor xs ys = map2 (\<noteq>) xs ys"

text \<open>
  \<open>xor_prefix p xs\<close> adds \<open>p\<close> to the leading coefficients of \<open>xs\<close>.  \<open>gf2_rem g xs\<close> is the
  remainder of \<open>xs\<close> modulo the polynomial with leading coefficient one and the remaining
  coefficients \<open>g\<close>, highest degree first.
\<close>

definition xor_prefix :: "bool list \<Rightarrow> bool list \<Rightarrow> bool list" where
  "xor_prefix p xs = bxor p (take (length p) xs) @ drop (length p) xs"

lemma length_bxor [simp, termination_simp]: "length (bxor xs ys) = min (length xs) (length ys)"
  by (simp add: bxor_def)

lemma length_xor_prefix [simp, termination_simp]:
  "length p \<le> length xs \<Longrightarrow> length (xor_prefix p xs) = length xs"
  by (simp add: xor_prefix_def)

fun gf2_rem :: "bool list \<Rightarrow> bool list \<Rightarrow> bool list" where
  "gf2_rem g [] = []"
| "gf2_rem g (x # xs) =
     (if length (x # xs) \<le> length g then x # xs
      else gf2_rem g (if x then xor_prefix g xs else xs))"

text \<open>The CRC of a bit string: remainder of the message, its head complemented, times \<open>x ^ w\<close>.\<close>

definition gf2_crc :: "bool list \<Rightarrow> bool list \<Rightarrow> bool list" where
  "gf2_crc g bs =
     map Not (gf2_rem g (xor_prefix (replicate (length g) True) (bs @ replicate (length g) False)))"

definition crc5_gen :: "bool list" where
  "crc5_gen = [False, False, True, False, True]"

definition crc16_gen :: "bool list" where
  "crc16_gen =
     [True, False, False, False, False, False, False, False,
      False, False, False, False, False, True, False, True]"

text \<open>The bits of a word, least significant first (the order of transmission on the wire).\<close>

definition bits_of :: "nat \<Rightarrow> 'a::len word \<Rightarrow> bool list" where
  "bits_of n x = map (bit x) [0..<n]"

definition bytes_bits :: "u8 list \<Rightarrow> bool list" where
  "bytes_bits ds = concat (map (bits_of 8) ds)"

section \<open>The shift register between the two\<close>

definition lfsr_step :: "bool list \<Rightarrow> bool list \<Rightarrow> bool \<Rightarrow> bool list" where
  "lfsr_step g s b =
     (let s' = tl s @ [False] in if hd s \<noteq> b then bxor s' g else s')"

definition lfsr_run :: "bool list \<Rightarrow> bool list \<Rightarrow> bool list \<Rightarrow> bool list" where
  "lfsr_run g s bs = foldl (lfsr_step g) s bs"

lemma lfsr_run_simps [simp]:
  "lfsr_run g s [] = s"
  "lfsr_run g s (b # bs) = lfsr_run g (lfsr_step g s b) bs"
  "lfsr_run g s (bs @ cs) = lfsr_run g (lfsr_run g s bs) cs"
  by (simp_all add: lfsr_run_def)

lemma length_bits_of [simp]: "length (bits_of n x) = n"
  by (simp add: bits_of_def)

lemma nth_bits_of [simp]: "i < n \<Longrightarrow> bits_of n x ! i = bit x i"
  by (simp add: bits_of_def)

lemma nth_bxor [simp]: "i < length xs \<Longrightarrow> i < length ys \<Longrightarrow> bxor xs ys ! i = (xs ! i \<noteq> ys ! i)"
  by (simp add: bxor_def)

lemma length_lfsr_step [simp]:
  "length s = length g \<Longrightarrow> g \<noteq> [] \<Longrightarrow> length (lfsr_step g s b) = length g"
  by (cases s) (simp_all add: lfsr_step_def Let_def)

lemma length_lfsr_run [simp]:
  "length s = length g \<Longrightarrow> g \<noteq> [] \<Longrightarrow> length (lfsr_run g s bs) = length g"
  by (induction bs arbitrary: s) simp_all

text \<open>Long division of the message with the register added to its head is the register's run.\<close>

lemma bxor_Cons [simp]: "bxor (x # xs) (y # ys) = (x \<noteq> y) # bxor xs ys"
  by (simp add: bxor_def)

lemma bxor_Nil [simp]: "bxor [] ys = []" "bxor xs [] = []"
  by (simp_all add: bxor_def)

lemma bxor_commute: "bxor xs ys = bxor ys xs"
  by (induction xs arbitrary: ys; case_tac ys) (auto simp: bxor_def)

lemma xor_prefix_xor_prefix:
  "length p = length q \<Longrightarrow> length q \<le> length xs \<Longrightarrow>
   xor_prefix p (xor_prefix q xs) = xor_prefix (bxor q p) xs"
  by (rule nth_equalityI) (auto simp: xor_prefix_def nth_append)

lemma xor_prefix_snoc_False:
  "Suc (length s) \<le> length xs \<Longrightarrow> xor_prefix (s @ [False]) xs = xor_prefix s xs"
  by (rule nth_equalityI) (auto simp: xor_prefix_def nth_append less_Suc_eq)

lemma gf2_rem_lfsr:
  assumes "length s = length g" "g \<noteq> []"
  shows "gf2_rem g (xor_prefix s (bs @ replicate (length g) False)) = lfsr_run g s bs"
  using assms
proof (induction bs arbitrary: s)
  case Nil
  have "xor_prefix s (replicate (length g) False) = s"
    using Nil by (intro nth_equalityI) (auto simp: xor_prefix_def nth_append)
  moreover have "gf2_rem g s = s"
    using Nil by (cases s) simp_all
  ultimately show ?case by simp
next
  case (Cons b bs)
  obtain t s' where s: "s = t # s'" and g: "length g = Suc (length s')"
    using Cons.prems by (cases s) auto
  let ?rest = "bs @ replicate (length g) False"
  have "xor_prefix s ((b # bs) @ replicate (length g) False) = (t \<noteq> b) # xor_prefix s' ?rest"
    by (simp add: s xor_prefix_def)
  moreover have "xor_prefix s' ?rest = xor_prefix (s' @ [False]) ?rest"
    using g by (simp add: xor_prefix_snoc_False)
  moreover have "xor_prefix g (xor_prefix (s' @ [False]) ?rest) = xor_prefix (bxor (s' @ [False]) g) ?rest"
    using g by (intro xor_prefix_xor_prefix) simp_all
  moreover have "length (xor_prefix s' ?rest) \<ge> length g"
    using g by (simp add: xor_prefix_def)
  ultimately have "gf2_rem g (xor_prefix s ((b # bs) @ replicate (length g) False))
      = gf2_rem g (xor_prefix (lfsr_step g s b) ?rest)"
    by (simp add: s lfsr_step_def)
  also have "\<dots> = lfsr_run g (lfsr_step g s b) bs"
    using Cons.prems by (intro Cons.IH) simp_all
  finally show ?case by simp
qed


section \<open>The code's registers are shift registers\<close>

text \<open>
  Both little-endian loops have one shape: they fix a width and a reflected polynomial.
  The locale is what the proofs need of such a loop; it is interpreted on \<open>crc5_loop\<close> and
  on \<open>crc16_byte_loop\<close>.
\<close>

lemma has_1_iff: "has (x :: 'a::len word) 1 \<longleftrightarrow> bit x 0"
proof -
  have "x AND 1 = (if bit x 0 then 1 else 0)"
  proof (rule bit_word_eqI)
    fix n assume "n < LENGTH('a)"
    then show "bit (x AND 1) n = bit (if bit x 0 then 1 else 0 :: 'a word) n"
      by (cases n) (auto simp: bit_simps)
  qed
  then show ?thesis by (simp add: has_def)
qed

definition low_bits :: "nat \<Rightarrow> u32 \<Rightarrow> bool" where
  "low_bits w x \<longleftrightarrow> (\<forall>k \<ge> w. \<not> bit x k)"

locale reflected_register =
  fixes w :: nat and poly :: u32 and loop :: "nat \<Rightarrow> u32 \<Rightarrow> u32 \<Rightarrow> u32"
  assumes width: "0 < w" "w \<le> 32"
    and poly_low: "low_bits w poly"
    and loop_0: "loop 0 u c = c"
    and loop_Suc: "loop (Suc n) u c =
      loop n (drop_bit 1 u) (if has (u XOR c) 1 then drop_bit 1 c XOR poly else drop_bit 1 c)"
begin

lemma drop_bits:
  assumes "low_bits w c"
  shows "bits_of w (drop_bit (Suc 0) c) = tl (bits_of w c) @ [False]"
proof (rule nth_equalityI)
  fix i assume "i < length (bits_of w (drop_bit (Suc 0) c))"
  then show "bits_of w (drop_bit (Suc 0) c) ! i = (tl (bits_of w c) @ [False]) ! i"
    using assms width
    by (auto simp: nth_append nth_tl bit_simps low_bits_def less_Suc_eq)
qed (use width in simp)

lemma xor_bits: "bits_of w (c XOR poly) = bxor (bits_of w c) (bits_of w poly)"
  by (rule nth_equalityI) (auto simp: bit_simps)

lemma hd_bits: "hd (bits_of w c) = bit c 0"
  using width by (simp add: bits_of_def hd_map)

lemma step_low:
  "low_bits w c \<Longrightarrow> low_bits w (if b then drop_bit 1 c XOR poly else drop_bit 1 c)"
  using poly_low by (auto simp: low_bits_def bit_simps)

lemma step_bits:
  "low_bits w c \<Longrightarrow>
   bits_of w (if has (u XOR c) 1 then drop_bit 1 c XOR poly else drop_bit 1 c)
   = lfsr_step (bits_of w poly) (bits_of w c) (bit u 0)"
  by (auto simp: lfsr_step_def hd_bits has_1_iff bit_simps xor_bits drop_bits)

lemma bits_of_Suc: "bits_of (Suc n) (u :: u32) = bit u 0 # bits_of n (drop_bit 1 u)"
  by (rule nth_equalityI) (auto simp: nth_Cons bit_simps split: nat.split)

lemma loop_bits:
  assumes "low_bits w c"
  shows "bits_of w (loop n u c) = lfsr_run (bits_of w poly) (bits_of w c) (bits_of n u)"
    and "low_bits w (loop n u c)"
proof -
  have "bits_of w (loop n u c) = lfsr_run (bits_of w poly) (bits_of w c) (bits_of n u)
      \<and> low_bits w (loop n u c)"
    using assms
  proof (induction n arbitrary: u c)
    case 0
    then show ?case by (simp add: loop_0 bits_of_def)
  next
    case (Suc n)
    let ?c = "if has (u XOR c) 1 then drop_bit 1 c XOR poly else drop_bit 1 c"
    have "low_bits w ?c"
      using Suc.prems by (rule step_low)
    from Suc.IH [OF this, of "drop_bit 1 u"] show ?case
      unfolding loop_Suc bits_of_Suc lfsr_run_simps step_bits [OF Suc.prems] by simp
  qed
  then show "bits_of w (loop n u c) = lfsr_run (bits_of w poly) (bits_of w c) (bits_of n u)"
    and "low_bits w (loop n u c)" by simp_all
qed

end

lemma low_bits_le: "low_bits w x \<Longrightarrow> w \<le> v \<Longrightarrow> low_bits v x"
  by (simp add: low_bits_def)

lemma low_bits_take_bit: "take_bit w x = x \<Longrightarrow> low_bits w x"
  by (metis bit_take_bit_iff low_bits_def not_le)

interpretation crc5_reg: reflected_register 5 "0x14" crc5_loop
  by unfold_locales (auto intro: low_bits_take_bit)

interpretation crc16_reg: reflected_register 16 "0xA001" crc16_byte_loop
  by unfold_locales (auto intro: low_bits_take_bit)

lemma upt_numeral: "[0..<numeral k] = [0..<pred_numeral k] @ [pred_numeral k]"
  by (simp add: numeral_eq_Suc)

lemma crc5_poly_bits: "bits_of 5 (0x14 :: u32) = crc5_gen"
  by (simp add: bits_of_def crc5_gen_def upt_numeral)

lemma crc16_poly_bits: "bits_of 16 (0xA001 :: u32) = crc16_gen"
  by (simp add: bits_of_def crc16_gen_def upt_numeral)

lemma crc5_init_bits: "bits_of 5 (0x1f :: u32) = replicate 5 True"
  by (simp add: bits_of_def upt_numeral numeral_eq_Suc)

lemma crc16_init_bits: "bits_of 16 (0xffff :: u32) = replicate 16 True"
  by (simp add: bits_of_def upt_numeral numeral_eq_Suc)

lemma crc16_loop_bits:
  "low_bits 16 c \<Longrightarrow>
   bits_of 16 (crc16_loop ds c) = lfsr_run crc16_gen (bits_of 16 c) (bytes_bits ds)
   \<and> low_bits 16 (crc16_loop ds c)"
proof (induction ds arbitrary: c)
  case Nil
  then show ?case by (simp add: bytes_bits_def)
next
  case (Cons d ds)
  have "bits_of 8 (to_u32 d) = bits_of 8 d"
    by (rule nth_equalityI) (auto simp: bit_simps)
  with Cons.IH [OF crc16_reg.loop_bits(2) [OF Cons.prems]]
  show ?case
    by (simp add: bytes_bits_def crc16_reg.loop_bits [OF Cons.prems] crc16_poly_bits)
qed

lemma bits_of_xor_ones:
  "bits_of w ones = replicate w True \<Longrightarrow> bits_of w (x XOR ones) = map Not (bits_of w (x :: u32))"
  by (rule nth_equalityI) (auto simp: bit_simps list_eq_iff_nth_eq)


lemma low_bits_eqI:
  assumes "low_bits w x" "low_bits w y" "bits_of w x = bits_of w y"
  shows "x = y"
proof (rule bit_word_eqI)
  fix n :: nat assume "n < LENGTH(32)"
  show "bit x n = bit y n"
  proof (cases "n < w")
    case True
    then have "bits_of w x ! n = bits_of w y ! n" using assms(3) by simp
    with True show ?thesis by simp
  qed (use assms in \<open>auto simp: low_bits_def\<close>)
qed

lemma low_bits_xor: "low_bits w x \<Longrightarrow> low_bits w y \<Longrightarrow> low_bits w (x XOR y)"
  by (simp add: low_bits_def bit_simps)

lemma low_bits_consts [simp]: "low_bits 5 0x1f" "low_bits 16 0xffff" "low_bits 5 6" "low_bits 16 0xB001"
  by (simp_all add: low_bits_take_bit)

lemma low_bits_CRC5: "0 < n \<Longrightarrow> n \<le> 32 \<Longrightarrow> low_bits 5 (CRC5 x n)"
  by (simp add: CRC5_def low_bits_xor crc5_reg.loop_bits)

lemma low_bits_crc16: "low_bits 16 (crc16_bytes ds)"
  by (simp add: crc16_bytes_def low_bits_xor crc16_loop_bits)

lemma CRC5_lfsr:
  "0 < n \<Longrightarrow> n \<le> 32 \<Longrightarrow>
   bits_of 5 (CRC5 x n) = map Not (lfsr_run crc5_gen (replicate 5 True) (bits_of (nat n) x))"
  by (simp add: CRC5_def bits_of_xor_ones crc5_init_bits crc5_reg.loop_bits crc5_poly_bits)

lemma crc16_lfsr:
  "bits_of 16 (crc16_bytes ds) = map Not (lfsr_run crc16_gen (replicate 16 True) (bytes_bits ds))"
  using crc16_loop_bits [of "0xffff" ds]
  by (simp add: crc16_bytes_def bits_of_xor_ones crc16_init_bits)

lemma length_gens [simp]: "length crc5_gen = 5" "length crc16_gen = 16"
  by (simp_all add: crc5_gen_def crc16_gen_def)

lemma gens_nonempty [simp]: "crc5_gen \<noteq> []" "crc16_gen \<noteq> []"
  by (simp_all add: crc5_gen_def crc16_gen_def)

section \<open>Linearity, residue and burst detection of the register\<close>

lemma lfsr_step_nth:
  assumes "length s = length g" "i < length g"
  shows "lfsr_step g s b ! i = ((Suc i < length g \<and> s ! Suc i) \<noteq> (s ! 0 \<noteq> b \<and> g ! i))"
proof -
  obtain x s' where s: "s = x # s'" using assms by (cases s) auto
  show ?thesis
  proof (cases "i < length s'")
    case True
    then show ?thesis using assms by (simp add: s lfsr_step_def Let_def nth_append)
  next
    case False
    then have "i = length s'" using assms s by simp
    then show ?thesis using assms by (auto simp: s lfsr_step_def Let_def nth_append)
  qed
qed

lemma lfsr_step_xor:
  assumes "length s = length g" "length t = length g" "g \<noteq> []"
  shows "lfsr_step g (bxor s t) (b = (\<not> c)) = bxor (lfsr_step g s b) (lfsr_step g t c)"
proof (rule nth_equalityI)
  fix i assume "i < length (lfsr_step g (bxor s t) (b = (\<not> c)))"
  then have "i < length g" using assms by simp
  then show "lfsr_step g (bxor s t) (b = (\<not> c)) ! i = bxor (lfsr_step g s b) (lfsr_step g t c) ! i"
    using assms by (cases "Suc i < length g") (auto simp: lfsr_step_nth)
qed (use assms in simp)

lemma lfsr_run_xor:
  assumes "length s = length g" "length t = length g" "g \<noteq> []" "length bs = length cs"
  shows "lfsr_run g (bxor s t) (bxor bs cs) = bxor (lfsr_run g s bs) (lfsr_run g t cs)"
  using assms(4,1-3)
  by (induction bs cs arbitrary: s t rule: list_induct2) (simp_all add: lfsr_step_xor)

lemma lfsr_run_self: "lfsr_run g (s @ replicate k False) s = replicate (length s + k) False"
proof (induction s arbitrary: k)
  case Nil
  then show ?case by simp
next
  case (Cons x s)
  have "lfsr_step g ((x # s) @ replicate k False) x = s @ replicate (Suc k) False"
    by (simp add: lfsr_step_def replicate_append_same)
  with Cons.IH [of "Suc k"] show ?case by simp
qed

lemma bxor_replicate_False: "length xs = n \<Longrightarrow> bxor xs (replicate n False) = xs"
  "length xs = n \<Longrightarrow> bxor (replicate n False) xs = xs"
  by (auto intro: nth_equalityI)

lemma bxor_replicate_True: "length xs = n \<Longrightarrow> bxor xs (replicate n True) = map Not xs"
  by (auto intro: nth_equalityI)

text \<open>Feeding a register its own complement leaves a value that does not depend on it.\<close>

lemma lfsr_run_complement:
  assumes "length s = length g" "g \<noteq> []"
  shows "lfsr_run g s (map Not s) = lfsr_run g (replicate (length g) False) (replicate (length g) True)"
proof -
  let ?z = "replicate (length g) False" and ?o = "replicate (length g) True"
  have "lfsr_run g s (map Not s) = lfsr_run g (bxor s ?z) (bxor s ?o)"
    using assms by (simp add: bxor_replicate_False bxor_replicate_True)
  also have "\<dots> = bxor (lfsr_run g s s) (lfsr_run g ?z ?o)"
    using assms by (intro lfsr_run_xor) simp_all
  also have "lfsr_run g s s = ?z"
    using lfsr_run_self [of g s 0] assms by simp
  finally show ?thesis
    using assms by (simp add: bxor_replicate_False)
qed

text \<open>
  A register that holds a set bit at index \<open>i\<close> counted from the top needs at least \<open>i\<close>
  more steps before it can clear; an unchanged input never clears it.
\<close>

lemma lfsr_step_high:
  assumes "length s = length g" "i < length g" "s ! i" "0 < i" "last g"
  shows "\<exists>j \<ge> i - 1. j < length g \<and> lfsr_step g s b ! j"
proof (cases "s ! 0 = b")
  case True
  then have "lfsr_step g s b ! (i - 1)"
    using assms by (simp add: lfsr_step_nth)
  then show ?thesis using assms by (intro exI [of _ "i - 1"]) auto
next
  case False
  have "g ! (length g - 1)"
    using assms by (metis last_conv_nth less_nat_zero_code list.size(3))
  then have "lfsr_step g s b ! (length g - 1)"
    using assms False by (simp add: lfsr_step_nth) linarith
  then show ?thesis using assms by (intro exI [of _ "length g - 1"]) auto
qed

lemma lfsr_step_nonzero:
  assumes "length s = length g" "g \<noteq> []" "True \<in> set s" "last g"
  shows "True \<in> set (lfsr_step g s False)"
proof -
  obtain i where i: "i < length g" "s ! i"
    using assms by (metis in_set_conv_nth)
  have "\<exists>j < length g. lfsr_step g s False ! j"
  proof (cases "i = 0")
    case True
    have "g ! (length g - 1)"
      using assms by (metis last_conv_nth)
    then show ?thesis
      using assms i True by (intro exI [of _ "length g - 1"]) (simp add: lfsr_step_nth)
  next
    case False
    then show ?thesis using lfsr_step_high [of s g i False] assms i by auto
  qed
  then show ?thesis
    using assms by (metis (full_types) length_lfsr_step nth_mem)
qed

lemma lfsr_run_high:
  assumes "length s = length g" "i < length g" "s ! i" "last g" "length bs \<le> i"
  shows "True \<in> set (lfsr_run g s bs)"
  using assms
proof (induction bs arbitrary: s i)
  case Nil
  then show ?case by (metis lfsr_run_simps(1) nth_mem)
next
  case (Cons b bs)
  then obtain j where "j \<ge> i - 1" "j < length g" "lfsr_step g s b ! j"
    using lfsr_step_high [of s g i b] by auto
  moreover have "length (lfsr_step g s b) = length g"
    using Cons.prems by (cases g) auto
  ultimately show ?case
    using Cons.IH [of "lfsr_step g s b" j] Cons.prems by simp
qed

lemma lfsr_run_zeros_nonzero:
  "length s = length g \<Longrightarrow> g \<noteq> [] \<Longrightarrow> last g \<Longrightarrow> True \<in> set s \<Longrightarrow>
   True \<in> set (lfsr_run g s (replicate n False))"
  by (induction n arbitrary: s) (simp_all add: lfsr_step_nonzero)


text \<open>
  A burst: there is a differing bit, and every differing bit lies within \<open>n\<close> positions
  from the first one.
\<close>

definition burst :: "nat \<Rightarrow> bool list \<Rightarrow> bool" where
  "burst n d \<longleftrightarrow> (\<exists>a < length d. d ! a \<and> (\<forall>i < length d. d ! i \<longrightarrow> a \<le> i \<and> i < a + n))"

lemma burstE:
  assumes "burst n d"
  obtains a e b where "d = replicate a False @ (True # e) @ replicate b False" "length e < n"
proof -
  obtain a where a: "a < length d" "d ! a" and
    win: "\<And>i. i < length d \<Longrightarrow> d ! i \<Longrightarrow> a \<le> i \<and> i < a + n"
    using assms by (auto simp: burst_def)
  have n: "0 < n" using win [OF a] by simp
  define e where "e = take (n - 1) (drop (Suc a) d)"
  define z where "z = drop (a + n) d"
  have pre: "take a d = replicate a False"
  proof (rule nth_equalityI)
    fix i assume "i < length (take a d)"
    then show "take a d ! i = replicate a False ! i"
      using win [of i] by (cases "d ! i") auto
  qed (use a in simp)
  have post: "z = replicate (length d - (a + n)) False"
    using win unfolding z_def by (intro nth_equalityI) (fastforce simp: less_diff_conv add.commute)+
  have mid: "drop (Suc a) d = e @ z"
    using n append_take_drop_id [of "n - 1" "drop (Suc a) d"] unfolding e_def z_def by (simp add: add.commute)
  have "d = take a d @ d ! a # drop (Suc a) d"
    using a(1) by (rule id_take_nth_drop)
  then have "d = replicate a False @ (True # e) @ replicate (length d - (a + n)) False"
    unfolding pre mid post using a(2) by simp
  moreover have "length e < n" using n by (simp add: e_def)
  ultimately show thesis by (rule that)
qed

lemma lfsr_run_burst:
  assumes "burst n d" "n \<le> length g" "g \<noteq> []" "last g"
  shows "True \<in> set (lfsr_run g (replicate (length g) False) d)"
proof -
  obtain a e b where d: "d = replicate a False @ (True # e) @ replicate b False"
    and e: "length e < n"
    using assms(1) by (rule burstE)
  let ?z = "replicate (length g) False"
  have z: "lfsr_run g ?z (replicate a False) = ?z"
  proof (induction a)
    case (Suc a)
    have "lfsr_step g ?z False = ?z"
      using assms(3) by (intro nth_equalityI) (auto simp: lfsr_step_nth)
    with Suc show ?case by simp
  qed simp
  let ?s = "lfsr_step g ?z True"
  have "?s ! (length g - 1)"
    using assms by (simp add: lfsr_step_nth last_conv_nth)
  then have "True \<in> set (lfsr_run g ?s e)"
    using assms e by (intro lfsr_run_high [of _ _ "length g - 1"]) auto
  then have "True \<in> set (lfsr_run g (lfsr_run g ?s e) (replicate b False))"
    using assms by (intro lfsr_run_zeros_nonzero) simp_all
  then show ?thesis by (simp add: d z)
qed

lemma lfsr_run_distinguishes:
  assumes "burst (length g) (bxor bs cs)" "length bs = length cs" "length s = length g"
    and "g \<noteq> []" "last g"
  shows "lfsr_run g s bs \<noteq> lfsr_run g s cs"
proof
  assume eq: "lfsr_run g s bs = lfsr_run g s cs"
  have "bxor s s = replicate (length g) False"
    using assms(3) by (intro nth_equalityI) simp_all
  moreover have "bxor (lfsr_run g s cs) (lfsr_run g s cs) = replicate (length g) False"
    using assms by (intro nth_equalityI) simp_all
  ultimately have "lfsr_run g (replicate (length g) False) (bxor bs cs) = replicate (length g) False"
    using lfsr_run_xor [of s g s bs cs] assms eq by simp
  moreover have "True \<in> set (lfsr_run g (replicate (length g) False) (bxor bs cs))"
    using assms by (intro lfsr_run_burst [of "length g"]) (rule order_refl | assumption)+
  ultimately show False by simp
qed


section \<open>The big-endian register\<close>

definition msb_bits :: "nat \<Rightarrow> u32 \<Rightarrow> bool list" where
  "msb_bits n x = map (\<lambda>i. bit x (31 - i)) [0..<n]"

lemma length_msb_bits [simp]: "length (msb_bits n x) = n"
  by (simp add: msb_bits_def)

lemma nth_msb_bits [simp]: "i < n \<Longrightarrow> msb_bits n x ! i = bit x (31 - i)"
  by (simp add: msb_bits_def)

lemma has_push_bit_1: "has (x :: 'a::len word) (push_bit k 1) \<longleftrightarrow> bit x k" if "k < LENGTH('a)"
proof -
  have "x AND push_bit k 1 = (if bit x k then push_bit k 1 else 0)"
    by (rule bit_word_eqI) (auto simp: bit_simps)
  moreover have "bit (push_bit k 1 :: 'a word) k" using that by (simp only: bit_push_bit_iff) simp
  moreover have "w \<noteq> 0" if "bit w k" for w :: "'a word" using that by auto
  ultimately have "push_bit k 1 \<noteq> (0 :: 'a word)" "x AND push_bit k 1 = (if bit x k then push_bit k 1 else 0)"
    by blast+
  then show ?thesis by (simp add: has_def)
qed

lemma has_msb_iff: "has (x :: u32) (push_bit 31 1) \<longleftrightarrow> bit x 31"
  by (rule has_push_bit_1) simp

lemma msb_init_low: "\<forall>k < 27. \<not> bit (push_bit 27 0x1f :: u32) k"
  by (simp only: bit_push_bit_iff) auto

lemma bit_shl1: "bit (x * 2 :: u32) n \<longleftrightarrow> 0 < n \<and> n < 32 \<and> bit x (n - 1)"
  using bit_double_iff [of x n] by (auto simp: mult.commute)

lemma msb_poly: "msb_bits 5 (push_bit 27 5) = crc5_gen"
  by (simp add: msb_bits_def crc5_gen_def upt_numeral bit_simps)

lemma msb_init: "msb_bits 5 (push_bit 27 0x1f) = replicate 5 True"
  by (simp add: msb_bits_def upt_numeral bit_simps numeral_eq_Suc)

lemma msb_step:
  assumes "\<forall>k < 27. \<not> bit c k"
  shows "msb_bits 5 (if has (u XOR c) (push_bit 31 1) then push_bit 1 c XOR push_bit 27 5 else push_bit 1 c)
       = lfsr_step crc5_gen (msb_bits 5 c) (bit u 31)"
proof -
  have sh: "msb_bits 5 (push_bit (Suc 0) c) = tl (msb_bits 5 c) @ [False]"
  proof (rule nth_equalityI)
    fix i assume "i < length (msb_bits 5 (push_bit (Suc 0) c))"
    then have "i < 4 \<or> i = 4" by simp linarith
    then show "msb_bits 5 (push_bit (Suc 0) c) ! i = (tl (msb_bits 5 c) @ [False]) ! i"
      using assms by (auto simp: nth_append nth_tl bit_shl1)
  qed simp
  have xr: "msb_bits 5 (x XOR y) = bxor (msb_bits 5 x) (msb_bits 5 y)" for x y
    by (rule nth_equalityI) (auto simp: bit_simps)
  have "hd (msb_bits 5 c) = bit c 31"
    by (simp add: msb_bits_def hd_map)
  then show ?thesis
    unfolding has_msb_iff lfsr_step_def
    using msb_poly by (auto simp: sh [simplified] xr bit_simps Let_def)
qed

lemma crc5_msb_loop_bits:
  assumes "\<forall>k < 27. \<not> bit c k" "n \<le> 32"
  shows "msb_bits 5 (crc5_msb_loop n u c) = lfsr_run crc5_gen (msb_bits 5 c) (msb_bits n u)"
  using assms
proof (induction n arbitrary: u c)
  case 0
  then show ?case by (simp add: msb_bits_def)
next
  case (Suc n)
  let ?c = "if has (u XOR c) (push_bit 31 1) then push_bit 1 c XOR push_bit 27 5 else push_bit 1 c"
  have "msb_bits (Suc n) u = bit u 31 # msb_bits n (push_bit (Suc 0) u)"
    using Suc.prems
    by (intro nth_equalityI) (auto simp: nth_Cons bit_shl1 split: nat.split)
  moreover have "\<forall>k < 27. \<not> bit ?c k"
    using Suc.prems by (auto simp: bit_xor_iff bit_shl1 simp del: push_bit_numeral)
       (simp_all only: bit_push_bit_iff, auto)
  ultimately show ?case
    using Suc.IH [of ?c "push_bit 1 u"] Suc.prems msb_step [of c u] by simp
qed

section \<open>Properties\<close>

text \<open>
  C4: for every bit count the code accepts, the five bits \<open>CRC5\<close> returns are the
  complemented remainder of polynomial long division by \<open>x^5 + x^2 + 1\<close> over the message
  in wire order, and nothing is set above them.
\<close>

theorem CRC5_is_polynomial_division:
  assumes "1 \<le> iBitcnt" "iBitcnt \<le> 32"
  shows "bits_of 5 (CRC5 dwInput iBitcnt) = gf2_crc crc5_gen (bits_of (nat iBitcnt) dwInput)
       \<and> low_bits 5 (CRC5 dwInput iBitcnt)"
  using assms gf2_rem_lfsr [of "replicate 5 True" crc5_gen]
  by (simp add: CRC5_lfsr low_bits_CRC5 gf2_crc_def)

theorem CRC5_is_polynomial_division_witness:
  "bits_of 5 (CRC5 0x547 11) = gf2_crc crc5_gen (bits_of (nat 11) (0x547 :: u32))
     \<and> low_bits 5 (CRC5 0x547 11)"
  by (rule CRC5_is_polynomial_division) simp_all

text \<open>
  C3: the same for \<open>CRC16\<close> and \<open>x^16 + x^15 + x^2 + 1\<close>, over any number of data bytes, each
  sent least significant bit first.
\<close>

theorem CRC16_is_polynomial_division:
  "bits_of 16 (crc16_bytes ds) = gf2_crc crc16_gen (bytes_bits ds) \<and> low_bits 16 (crc16_bytes ds)"
  using gf2_rem_lfsr [of "replicate 16 True" crc16_gen "bytes_bits ds"]
  by (simp add: crc16_lfsr low_bits_crc16 gf2_crc_def)

lemma length_bytes_bits [simp]: "length (bytes_bits ds) = 8 * length ds"
  by (induction ds) (simp_all add: bytes_bits_def)

text \<open>
  C5: error detection: two data fields of one length whose wire bits differ in a burst of
  at most 16 positions never have the same CRC16.
\<close>

theorem CRC16_detects_bursts:
  assumes "length ds = length es" "burst 16 (bxor (bytes_bits ds) (bytes_bits es))"
  shows "crc16_bytes ds \<noteq> crc16_bytes es"
proof
  assume "crc16_bytes ds = crc16_bytes es"
  then have "lfsr_run crc16_gen (replicate 16 True) (bytes_bits ds)
      = lfsr_run crc16_gen (replicate 16 True) (bytes_bits es)"
    using crc16_lfsr [of ds] crc16_lfsr [of es] by (simp add: inj_map_eq_map inj_def)
  moreover have "last crc16_gen"
    by (simp add: crc16_gen_def)
  ultimately show False
    using lfsr_run_distinguishes [of crc16_gen "bytes_bits ds" "bytes_bits es" "replicate 16 True"]
      assms by simp
qed

theorem CRC16_detects_bursts_witness:
  "crc16_bytes [0x80, 0x06, 0x00] \<noteq> crc16_bytes [0x80, 0x86, 0x40]"
proof (rule CRC16_detects_bursts)
  show "burst 16 (bxor (bytes_bits [0x80, 0x06, 0x00]) (bytes_bits [0x80, 0x86, 0x40 :: u8]))"
    by code_simp
qed simp

text \<open>
  C8: the receiver's residue of a token: running the CRC over the eleven address and
  endpoint (or frame number) bits and the five CRC bits that follow them gives the same
  value for every token.
\<close>

theorem CRC5_token_residue:
  assumes "x < 2 ^ 11"
  shows "CRC5 (x OR push_bit 11 (CRC5 x 11)) 16 = 0x19"
proof -
  let ?w = "x OR push_bit 11 (CRC5 x 11)" and ?s = "lfsr_run crc5_gen (replicate 5 True) (bits_of 11 x)"
  have "take_bit 11 x = x"
    using assms by (simp add: take_bit_eq_mask less_mask_eq)
  then have x: "\<not> bit x k" if "11 \<le> k" for k
    using that by (metis bit_take_bit_iff not_le)
  have "bits_of 16 ?w = bits_of 11 x @ bits_of 5 (CRC5 x 11)"
    by (rule nth_equalityI) (auto simp: nth_append bit_simps x low_bits_def)
  moreover have "bits_of 5 (CRC5 x 11) = map Not ?s"
    by (simp add: CRC5_lfsr)
  ultimately have "bits_of 5 (CRC5 ?w 16)
      = map Not (lfsr_run crc5_gen (replicate 5 False) (replicate 5 True))"
    using lfsr_run_complement [of ?s crc5_gen] by (simp add: CRC5_lfsr)
  also have "\<dots> = bits_of 5 (0x19 :: u32)"
    by code_simp
  finally show ?thesis
    by (intro low_bits_eqI [of 5]) (simp_all add: low_bits_CRC5 low_bits_take_bit)
qed


theorem CRC5_token_residue_witness:
  "CRC5 (0x715 OR push_bit 11 (CRC5 0x715 11)) 16 = 0x19"
  by (rule CRC5_token_residue) simp

text \<open>
  C9: \<open>CRC5_MSBfirst\<close> computes the same checksum for the opposite bit order: its message is
  read from the top bit and its result, read from the top bit, is the remainder of the
  same division.
\<close>

theorem CRC5_MSBfirst_is_polynomial_division:
  assumes "1 \<le> iBitcnt" "iBitcnt \<le> 32"
  shows "rev (bits_of 5 (CRC5_MSBfirst dwInput iBitcnt))
       = gf2_crc crc5_gen (rev (bits_of (nat iBitcnt) dwInput))"
proof -
  let ?n = "nat iBitcnt"
  let ?u = "push_bit (nat (32 - iBitcnt)) dwInput"
  let ?c = "crc5_msb_loop ?n ?u (push_bit 27 0x1f)"
  have n: "0 < ?n" "?n \<le> 32" "nat (32 - iBitcnt) = 32 - ?n" using assms by auto
  have "rev (bits_of 5 (drop_bit 27 ?c XOR 0x1f)) = map Not (rev (bits_of 5 (drop_bit 27 ?c)))"
    by (simp add: bits_of_xor_ones crc5_init_bits rev_map)
  also have "rev (bits_of 5 (drop_bit 27 ?c)) = msb_bits 5 ?c"
    by (rule nth_equalityI) (auto simp: rev_nth bit_simps)
  also have "\<dots> = lfsr_run crc5_gen (replicate 5 True) (msb_bits ?n ?u)"
    using crc5_msb_loop_bits [OF msb_init_low n(2)] by (simp only: msb_init)
  also have "msb_bits ?n ?u = rev (bits_of ?n dwInput)"
    using n by (intro nth_equalityI) (auto simp: rev_nth bit_simps)
  finally show ?thesis
    using assms gf2_rem_lfsr [of "replicate 5 True" crc5_gen "rev (bits_of ?n dwInput)"]
    by (simp add: CRC5_MSBfirst_def gf2_crc_def Let_def)
qed

theorem CRC5_MSBfirst_is_polynomial_division_witness:
  "rev (bits_of 5 (CRC5_MSBfirst 0x547 11)) = gf2_crc crc5_gen (rev (bits_of (nat 11) (0x547 :: u32)))"
  by (rule CRC5_MSBfirst_is_polynomial_division) simp_all

text \<open>The values the comment above \<open>CRC5_MSBfirst\<close> and those in \<open>test_crc.c\<close> list.\<close>

lemma CRC5_documented_values:
  "CRC5_MSBfirst 0x547 11 = 0x17" "CRC5_MSBfirst 0x2e5 11 = 0x1C"
  "CRC5_MSBfirst 0x072 11 = 0x0E" "CRC5_MSBfirst 0x400 11 = 0x17"
  "CRC5 0x1 11 = 0x1d" "CRC5 0x270 11 = 0xe" "CRC5 0x53a 11 = 0x7" "CRC5 0x715 11 = 0x1d"
  by code_simp+

end
