(* ===== verification/Format.thy ===== *)
theory Format
  imports Prelude
begin

text \<open>
  The \<open>printf\<close> conversions the monitor's log uses: \<open>%x\<close>, \<open>%02x\<close>, \<open>%-3x\<close>, \<open>%d\<close>, \<open>%8d\<close>
  and \<open>%s\<close>, as functions from values to strings.
\<close>

definition hex_digits :: string where
  "hex_digits = ''0123456789abcdef''"

definition nl :: string where
  "nl = [CHR 0x0A]"

fun hex_nat :: "nat \<Rightarrow> string" where
  "hex_nat n = (if n < 16 then [hex_digits ! n] else hex_nat (n div 16) @ [hex_digits ! (n mod 16)])"

fun dec_nat :: "nat \<Rightarrow> string" where
  "dec_nat n = (if n < 10 then [hex_digits ! n] else dec_nat (n div 10) @ [hex_digits ! (n mod 10)])"

declare hex_nat.simps [simp del] dec_nat.simps [simp del]

definition hex :: "'a::len word \<Rightarrow> string" where
  "hex w = hex_nat (unat w)"

text \<open>\<open>%d\<close> prints a 32-bit argument as a signed number.\<close>

definition dec :: "u32 \<Rightarrow> string" where
  "dec w = (if sint w < 0 then ''-'' @ dec_nat (nat (- sint w)) else dec_nat (nat (sint w)))"

definition pad_left :: "nat \<Rightarrow> char \<Rightarrow> string \<Rightarrow> string" where
  "pad_left n c s = replicate (n - length s) c @ s"

definition pad_right :: "nat \<Rightarrow> string \<Rightarrow> string" where
  "pad_right n s = s @ replicate (n - length s) CHR '' ''"

definition hex0 :: "nat \<Rightarrow> 'a::len word \<Rightarrow> string" where
  "hex0 n w = pad_left n CHR ''0'' (hex w)"

definition hex_left :: "nat \<Rightarrow> 'a::len word \<Rightarrow> string" where
  "hex_left n w = pad_right n (hex w)"

definition dec8 :: "u32 \<Rightarrow> string" where
  "dec8 w = pad_left 8 CHR '' '' (dec w)"

lemma length_hex_nat: "0 < k \<Longrightarrow> n < 16 ^ k \<Longrightarrow> length (hex_nat n) \<le> k"
proof (induction n arbitrary: k rule: hex_nat.induct)
  case (1 n)
  show ?case
  proof (cases "n < 16")
    case False
    with "1.prems" obtain j where k: "k = Suc j" "0 < j"
      by (cases k; cases "k - 1") auto
    have "n div 16 < 16 ^ j"
      using "1.prems"(2) k by (simp add: less_mult_imp_div_less mult.commute)
    with "1.IH" [OF False k(2)] k False show ?thesis by (simp add: hex_nat.simps [of n])
  qed (use "1.prems" in \<open>simp add: hex_nat.simps [of n]\<close>)
qed

lemma length_hex_u32: "length (hex (w :: u32)) \<le> 8"
  unfolding hex_def using unsigned_less [of w, where ?'a = nat] by (intro length_hex_nat) auto

lemma length_hex_u16: "length (hex (w :: u16)) \<le> 4"
  unfolding hex_def using unsigned_less [of w, where ?'a = nat] by (intro length_hex_nat) auto

lemma length_hex_left_u32: "length (hex_left 8 (w :: u32)) = 8"
  using length_hex_u32 [of w] by (simp add: hex_left_def pad_right_def)

lemma length_hex_left_u16: "length (hex_left 3 (w :: u16)) \<le> 4"
  using length_hex_u16 [of w] by (simp add: hex_left_def pad_right_def)

end
