(* ===== verification/Utils.thy ===== *)
theory Utils
  imports Format
begin

text \<open>
  \<open>usb_utils.c\<close> and \<open>usb_utils.h\<close>: the PID decoder, the hexadecimal dump and the
  little-endian accessors.  A pointer argument is the list of bytes from it to the end of
  its array, so a read beyond the array is an error.
\<close>

section \<open>The code\<close>

definition pid_names :: "string list" where
  "pid_names =
     [''Rsvd'', ''OUT'', ''ACK'', ''DATA0'', ''PING'', ''SOF'', ''NYET'', ''DATA2'',
      ''SPLIT'', ''IN'', ''NAK'', ''DATA1'', ''PRE/ERR'', ''SETUP'', ''STALL'', ''MDATA'']"

text \<open>The test \<open>((pid ^ 0xf0) >> 4) ^ (pid & 0xf)\<close>: nonzero for a malformed PID.\<close>

definition pid_bad :: "u8 \<Rightarrow> bool" where
  "pid_bad pid \<longleftrightarrow> drop_bit 4 (pid XOR 0xf0) XOR (pid AND 0xf) \<noteq> 0"

definition decode_pid :: "u8 \<Rightarrow> string" where
  "decode_pid pid = (if pid_bad pid then ''???'' else pid_names ! unat (pid AND 0xf))"

definition get_le16 :: "u8 list \<Rightarrow> u16 res" where
  "get_le16 dp =
     bnd (arr_get dp 0) (\<lambda>d0. bnd (arr_get dp 1) (\<lambda>d1.
       Inr (to_u16 d0 OR push_bit 8 (to_u16 d1))))"

definition get_le32 :: "u8 list \<Rightarrow> u32 res" where
  "get_le32 dp =
     bnd (arr_get dp 0) (\<lambda>d0. bnd (arr_get dp 1) (\<lambda>d1.
     bnd (arr_get dp 2) (\<lambda>d2. bnd (arr_get dp 3) (\<lambda>d3.
       Inr (to_u32 d0 OR push_bit 8 (to_u32 d1) OR push_bit 16 (to_u32 d2)
            OR push_bit 24 (to_u32 d3))))))"

text \<open>The setters write at the start of \<open>dp\<close> and return the array and the advanced offset.\<close>

definition set_le16 :: "u8 list \<Rightarrow> u16 \<Rightarrow> (u8 list \<times> nat) res" where
  "set_le16 dp n =
     bnd (arr_set dp 0 (to_u8 n)) (\<lambda>dp. bnd (arr_set dp 1 (to_u8 (drop_bit 8 n))) (\<lambda>dp.
       Inr (dp, 2)))"

definition set_le32 :: "u8 list \<Rightarrow> u32 \<Rightarrow> (u8 list \<times> nat) res" where
  "set_le32 dp n =
     bnd (arr_set dp 0 (to_u8 n)) (\<lambda>dp.
     bnd (arr_set dp 1 (to_u8 (drop_bit 8 n))) (\<lambda>dp.
     bnd (arr_set dp 2 (to_u8 (drop_bit 16 n))) (\<lambda>dp.
     bnd (arr_set dp 3 (to_u8 (drop_bit 24 n))) (\<lambda>dp. Inr (dp, 4)))))"

text \<open>
  \<open>dump_bytes\<close> returns the lines it prints.  A row is sixteen columns of two hexadecimal
  digits and a space, blank where the data ends, then the printable characters; \<open>char\<close>
  is signed, so bytes from 0x80 up are not printable.
\<close>

definition dump_char :: "u8 \<Rightarrow> char" where
  "dump_char b = (if sint b < 0x20 \<or> sint b \<ge> 0x7f then CHR ''.'' else char_of (unat b))"

definition dump_row :: "u8 list \<Rightarrow> string" where
  "dump_row row =
     concat (map (\<lambda>b. [hex_digits ! unat (drop_bit 4 b), hex_digits ! unat (b AND 0xf), CHR '' '']) row)
     @ replicate (3 * (16 - length row)) CHR '' ''
     @ map dump_char row"

fun dump_lines :: "string \<Rightarrow> u8 list \<Rightarrow> string list" where
  "dump_lines prefix data =
     (if data = [] then []
      else (prefix @ dump_row (take 16 data) @ nl) # dump_lines prefix (drop 16 data))"

declare dump_lines.simps [simp del]

definition dump_bytes :: "string option \<Rightarrow> u8 list \<Rightarrow> nat \<Rightarrow> string list res" where
  "dump_bytes prefix data n =
     bnd (arr_read data 0 n) (\<lambda>ds.
       Inr (dump_lines (case prefix of None \<Rightarrow> [] | Some p \<Rightarrow> p) ds))"

section \<open>Properties\<close>

text \<open>
  A PID is well formed exactly when its high nibble is the complement of its low nibble;
  then its name is the table's entry for the low nibble.
\<close>


lemma pid_bad_iff: "pid_bad pid \<longleftrightarrow> drop_bit 4 pid \<noteq> (NOT pid) AND 0xf"
proof -
  have "drop_bit 4 (pid XOR 0xf0) XOR (pid AND 0xf) = drop_bit 4 pid XOR ((NOT pid) AND 0xf)"
  proof (rule bit_word_eqI)
    fix n :: nat assume n: "n < LENGTH(8)"
    have "bit (0xf0 :: u8) (4 + n) = bit (0xf :: u8) n"
      using n by (cases "n < 4") (auto simp: numeral_eq_Suc less_Suc_eq)
    then show "bit (drop_bit 4 (pid XOR 0xf0) XOR (pid AND 0xf)) n
        = bit (drop_bit 4 pid XOR ((NOT pid) AND 0xf)) n"
      using n by (cases "n < 4") (auto simp: bit_simps)
  qed
  then show ?thesis
    by (simp add: pid_bad_def word_xor_eq_0_iff)
qed

text \<open>
  C10: \<open>decode_pid\<close> accepts a byte exactly when its high nibble is the complement of its low
  nibble, and then returns the name its table holds for the low nibble.
\<close>

theorem decode_pid_valid_iff:
  "decode_pid pid =
     (if drop_bit 4 pid = (NOT pid) AND 0xf then pid_names ! unat (pid AND 0xf) else ''???'')
   \<and> (decode_pid pid = ''???'' \<longleftrightarrow> drop_bit 4 pid \<noteq> (NOT pid) AND 0xf)"
proof -
  have "unat (pid AND 0xf) < 16"
    by (rule unat_and_less) simp
  then have "pid_names ! unat (pid AND 0xf) \<in> set pid_names"
    by (intro nth_mem) (simp add: pid_names_def)
  moreover have "''???'' \<notin> set pid_names"
    by (simp add: pid_names_def)
  ultimately have "pid_names ! unat (pid AND 0xf) \<noteq> ''???''"
    by metis
  then show ?thesis
    by (auto simp: decode_pid_def pid_bad_iff)
qed

text \<open>The little-endian accessors are inverse to each other.\<close>

lemma le16_bits: "to_u16 (to_u8 n) OR push_bit 8 (to_u16 (to_u8 (drop_bit 8 n))) = (n :: u16)"
  by (rule bit_word_eqI) (auto simp: bit_simps)

lemma le16_bits_u32:
  "to_u16 (to_u8 n) OR push_bit 8 (to_u16 (to_u8 (drop_bit 8 n))) = to_u16 (n :: u32)"
  by (rule bit_word_eqI) (auto simp: bit_simps)

lemma le32_bits:
  "to_u32 (to_u8 n) OR push_bit 8 (to_u32 (to_u8 (drop_bit 8 n)))
   OR push_bit 16 (to_u32 (to_u8 (drop_bit 16 n))) OR push_bit 24 (to_u32 (to_u8 (drop_bit 24 n)))
   = (n :: u32)"
proof (rule bit_word_eqI)
  fix k :: nat assume "k < LENGTH(32)"
  then consider "k < 8" | "8 \<le> k" "k < 16" | "16 \<le> k" "k < 24" | "24 \<le> k" "k < 32"
    by fastforce
  then show "bit (to_u32 (to_u8 n) OR push_bit 8 (to_u32 (to_u8 (drop_bit 8 n)))
      OR push_bit 16 (to_u32 (to_u8 (drop_bit 16 n)))
      OR push_bit 24 (to_u32 (to_u8 (drop_bit 24 n)))) k = bit n k"
    by cases (auto simp: bit_simps)
qed

lemma get_set_le16:
  assumes "2 \<le> length dp"
  shows "bnd (set_le16 dp n) (\<lambda>(dp', k). get_le16 dp') = Inr n"
proof -
  obtain a b r where "dp = a # b # r"
    using assms by (auto simp: numeral_eq_Suc Suc_le_length_iff)
  then show ?thesis by (simp add: set_le16_def get_le16_def le16_bits)
qed

text \<open>
  C11: a 32-bit value written little endian into any array with room for it is read back
  unchanged, four bytes are consumed and the bytes after them are kept.
\<close>

theorem get_set_le32:
  assumes "4 \<le> length dp"
  shows "\<exists>dp'. set_le32 dp n = Inr (dp', 4) \<and> get_le32 dp' = Inr n
           \<and> length dp' = length dp \<and> drop 4 dp' = drop 4 dp"
proof -
  obtain a r1 where 1: "dp = a # r1" "3 \<le> length r1" using assms by (cases dp) auto
  obtain b r2 where 2: "r1 = b # r2" "2 \<le> length r2" using 1(2) by (cases r1) auto
  obtain c r3 where 3: "r2 = c # r3" "1 \<le> length r3" using 2(2) by (cases r2) auto
  obtain d r where 4: "r3 = d # r" using 3(2) by (cases r3) auto
  note dp = 1(1) 2(1) 3(1) 4
  let ?dp = "to_u8 n # to_u8 (drop_bit 8 n) # to_u8 (drop_bit 16 n) # to_u8 (drop_bit 24 n) # r"
  have "set_le32 dp n = Inr (?dp, 4)"
    by (simp add: dp set_le32_def)
  moreover have "get_le32 ?dp = Inr n"
    using le32_bits [of n] by (simp only: get_le32_def) simp
  ultimately show ?thesis
    by (intro exI [of _ ?dp]) (simp add: dp)
qed

theorem get_set_le32_witness:
  "\<exists>dp'. set_le32 [0, 0, 0, 0, 9] 0x579EA01A = Inr (dp', 4) \<and> get_le32 dp' = Inr 0x579EA01A
     \<and> length dp' = length [0 :: u8, 0, 0, 0, 9] \<and> drop 4 dp' = drop 4 [0 :: u8, 0, 0, 0, 9]"
  by (rule get_set_le32) simp

text \<open>Each line of a dump holds the prefix, 48 columns of hexadecimal, the text and a newline.\<close>

lemma length_dump_row:
  "length row \<le> 16 \<Longrightarrow> length (dump_row row) = 48 + length row"
proof -
  assume "length row \<le> 16"
  moreover have "length (concat (map (\<lambda>b. [hex_digits ! unat (drop_bit 4 b), hex_digits ! unat (b AND 0xf), CHR '' '']) row))
      = 3 * length row"
    by (induction row) simp_all
  ultimately show ?thesis by (simp add: dump_row_def)
qed

lemma length_dump_lines: "length (dump_lines prefix data) = (length data + 15) div 16"
proof (induction prefix data rule: dump_lines.induct)
  case (1 prefix data)
  show ?case
  proof (cases "data = []")
    case False
    with 1 have "length (dump_lines prefix data) = Suc ((length data - 16 + 15) div 16)"
      by (simp add: dump_lines.simps [of prefix data])
    moreover have "Suc ((length data - 16 + 15) div 16) = (length data + 15) div 16"
    proof (cases "16 \<le> length data")
      case True
      then obtain m where "length data = 16 + m" using le_Suc_ex by blast
      then show ?thesis by simp
    next
      case small: False
      then have "(length data + 15) div 16 = 1"
        using False by (intro div_nat_eqI) (auto simp: Suc_le_eq)
      with small show ?thesis by simp
    qed
    ultimately show ?thesis by simp
  qed (simp add: dump_lines.simps [of prefix "[]"])
qed

end
