(* ===== verification/Transfer_Desc.thy ===== *)
theory Transfer_Desc
  imports Usb_Defs Crc Utils
begin

text \<open>
  The transfer descriptor of \<open>usb_transfer.h\<close> and the operations of \<open>usb_transfer.c\<close> that
  work on one descriptor.  A pointer into the descriptor's buffer is an offset; a link to
  another descriptor is its index in the pool, \<open>None\<close> for \<open>NULL\<close>.  Size checks are made at
  the width the code makes them (\<open>size_t\<close> is 64 bits), so their wrap-around is the code's.
\<close>

section \<open>The descriptor\<close>

record transfer =
  t_next :: "nat option"
  t_num_bytes :: u8
  t_data_start :: u8
  t_data :: "u8 list"

definition zero_transfer :: transfer where
  "zero_transfer = \<lparr>t_next = None, t_num_bytes = 0, t_data_start = 0,
     t_data = replicate USBDPI_MAX_DATA 0\<rparr>"

definition transfer_init :: "transfer \<Rightarrow> transfer" where
  "transfer_init t = t\<lparr>t_next := None, t_num_bytes := 0, t_data_start := USBDPI_NO_DATA_STAGE\<rparr>"

definition transfer_token :: "transfer \<Rightarrow> u8 \<Rightarrow> u8 \<Rightarrow> u8 \<Rightarrow> transfer res" where
  "transfer_token t pid device endpoint =
     bnd (cassert ''device < 0x80U'' (device < 0x80)) (\<lambda>_.
     bnd (cassert ''endpoint < 0x10U'' (endpoint < 0x10)) (\<lambda>_.
     let t = transfer_init t; i = unat (t_num_bytes t) in
     bnd (cassert ''num_bytes <= sizeof(data) - 3'' (i \<le> USBDPI_MAX_DATA - 3)) (\<lambda>_.
     bnd (arr_set (t_data t) i pid) (\<lambda>d.
     bnd (arr_set d (i + 1) (to_u8 (to_u32 device OR push_bit 7 (to_u32 endpoint)))) (\<lambda>d.
     bnd (arr_set d (i + 2)
            (to_u8 (drop_bit 1 (to_u32 endpoint)
                    OR push_bit 3 (CRC5 (push_bit 7 (to_u32 endpoint) OR to_u32 device) 11)))) (\<lambda>d.
       Inr (t\<lparr>t_data := d, t_num_bytes := t_num_bytes t + 3\<rparr>)))))))"

text \<open>The result is the pointer to the data field; \<open>None\<close> would be \<open>NULL\<close>, after a failed assert.\<close>

definition transfer_data_start :: "transfer \<Rightarrow> u8 \<Rightarrow> u32 \<Rightarrow> (transfer \<times> nat option) res" where
  "transfer_data_start t pid est_size =
     bnd (cassert ''pid == USB_PID_DATA0 || pid == USB_PID_DATA1''
            (pid = USB_PID_DATA0 \<or> pid = USB_PID_DATA1)) (\<lambda>_.
     let data_start = t_num_bytes t in
     if (ucast est_size :: 64 word) > of_nat USBDPI_MAX_DATA - 1 - ucast data_start
     then bnd (cassert ''transfer_data_start space check failed'' False) (\<lambda>_. Inr (t, None))
     else
       bnd (arr_set (t_data t) (unat data_start) pid) (\<lambda>d.
         Inr (t\<lparr>t_data_start := data_start, t_data := d, t_num_bytes := t_num_bytes t + 1\<rparr>,
              Some (unat data_start + 1))))"

definition transfer_data_end :: "transfer \<Rightarrow> nat \<Rightarrow> transfer res" where
  "transfer_data_end t dp =
     bnd (cassert ''data_start != USBDPI_NO_DATA_STAGE'' (t_data_start t \<noteq> USBDPI_NO_DATA_STAGE)) (\<lambda>_.
     bnd (cassert ''dp < data + sizeof(data) - 2'' (dp < USBDPI_MAX_DATA - 2)) (\<lambda>_.
     let data_field = unat (t_data_start t) + 1 in
     bnd (CRC16 (drop data_field (t_data t)) (int dp - int data_field)) (\<lambda>crc.
     bnd (arr_set (t_data t) dp (to_u8 crc)) (\<lambda>d.
     bnd (arr_set d (dp + 1) (to_u8 (drop_bit 8 crc))) (\<lambda>d.
       Inr (t\<lparr>t_data := d, t_num_bytes := of_nat (dp + 2)\<rparr>))))))"

text \<open>\<open>transfer_append\<close> copies the \<open>n\<close> bytes \<open>bs\<close>; the result says whether there was room.\<close>

definition transfer_append :: "transfer \<Rightarrow> u8 list \<Rightarrow> (bool \<times> transfer) res" where
  "transfer_append t bs =
     (let num_bytes = t_num_bytes t; n = length bs in
      if (of_nat USBDPI_MAX_DATA - ucast num_bytes :: 64 word) < of_nat n then Inr (False, t)
      else bnd (arr_write (t_data t) (unat num_bytes) bs) (\<lambda>d.
             Inr (True, t\<lparr>t_data := d, t_num_bytes := num_bytes + of_nat n\<rparr>)))"

definition transfer_data_field :: "transfer \<Rightarrow> nat option" where
  "transfer_data_field t =
     (if t_data_start t \<noteq> USBDPI_NO_DATA_STAGE \<and> unat (t_data_start t) + 1 < unat (t_num_bytes t)
      then Some (unat (t_data_start t) + 1) else None)"

definition transfer_data_pid :: "transfer \<Rightarrow> u8 res" where
  "transfer_data_pid t =
     bnd (cassert ''data stage present''
            (t_data_start t \<noteq> USBDPI_NO_DATA_STAGE
             \<and> unat (t_data_start t) + 1 < unat (t_num_bytes t))) (\<lambda>_.
       arr_get (t_data t) (unat (t_data_start t)))"

definition transfer_length :: "transfer \<Rightarrow> u32" where
  "transfer_length t = to_u32 (t_num_bytes t)"

text \<open>\<open>transfer_dump\<close>: the lines printed; \<open>addr\<close> is the text \<open>%p\<close> gives for the pointer.\<close>

definition transfer_dump :: "string \<Rightarrow> transfer \<Rightarrow> string list res" where
  "transfer_dump addr t =
     bnd (dump_bytes (Some ''[usbdpi] '') (t_data t) (unat (t_num_bytes t))) (\<lambda>ls.
       Inr ([''[usbdpi] Transfer descriptor at '' @ addr @ nl,
             ''[usbdpi] num_bytes 0x'' @ hex (t_num_bytes t) @ '' data_start 0x''
               @ hex (t_data_start t) @ nl] @ ls))"

section \<open>Well-formed descriptors and the contracts of the operations\<close>

definition wf_transfer :: "transfer \<Rightarrow> bool" where
  "wf_transfer t \<longleftrightarrow> length (t_data t) = USBDPI_MAX_DATA \<and> unat (t_num_bytes t) \<le> USBDPI_MAX_DATA"

definition token_bytes :: "u8 \<Rightarrow> u8 \<Rightarrow> u8 \<Rightarrow> u8 list" where
  "token_bytes pid device endpoint =
     [pid, to_u8 (to_u32 device OR push_bit 7 (to_u32 endpoint)),
      to_u8 (drop_bit 1 (to_u32 endpoint)
             OR push_bit 3 (CRC5 (push_bit 7 (to_u32 endpoint) OR to_u32 device) 11))]"

lemma length_token_bytes [simp]: "length (token_bytes pid device endpoint) = 3"
  by (simp add: token_bytes_def)

lemma wf_zero_transfer [simp]: "wf_transfer zero_transfer"
  by (simp add: wf_transfer_def zero_transfer_def)

lemma wf_transfer_init [simp]: "wf_transfer t \<Longrightarrow> wf_transfer (transfer_init t)"
  by (simp add: wf_transfer_def transfer_init_def)

lemma wf_transfer_next [simp]: "wf_transfer (t\<lparr>t_next := n\<rparr>) = wf_transfer t"
  by (simp add: wf_transfer_def)

lemma transfer_init_sel [simp]:
  "t_next (transfer_init t) = None" "t_num_bytes (transfer_init t) = 0"
  "t_data_start (transfer_init t) = 0xff" "t_data (transfer_init t) = t_data t"
  by (simp_all add: transfer_init_def)

lemma transfer_token_eq:
  assumes "wf_transfer t" "device < 0x80" "endpoint < 0x10"
  shows "transfer_token t pid device endpoint =
    Inr (t\<lparr>t_next := None, t_num_bytes := 3, t_data_start := 0xff,
           t_data := token_bytes pid device endpoint @ drop 3 (t_data t)\<rparr>)"
proof -
  have "3 \<le> length (t_data t)"
    using assms by (simp add: wf_transfer_def)
  moreover from this obtain a b c r where "t_data t = a # b # c # r"
    by (rule length_ge_3E)
  ultimately show ?thesis
    using assms by (simp add: transfer_token_def transfer_init_def token_bytes_def Let_def)
qed

lemma wf_transfer_token:
  "wf_transfer t \<Longrightarrow> device < 0x80 \<Longrightarrow> endpoint < 0x10 \<Longrightarrow>
   wp no_error (transfer_token t pid device endpoint)
     (\<lambda>t'. wf_transfer t' \<and> t_num_bytes t' = 3 \<and> t_data_start t' = 0xff \<and> t_next t' = None)"
  by (simp add: transfer_token_eq) (simp add: wf_transfer_def)


text \<open>
  The sequence the senders share: \<open>transfer_data_start\<close>, the stores of the payload through
  the returned pointer, \<open>transfer_data_end\<close> with the advanced pointer.
\<close>

definition data_stage :: "transfer \<Rightarrow> u8 \<Rightarrow> u32 \<Rightarrow> u8 list \<Rightarrow> transfer res" where
  "data_stage t pid est_size payload =
     bnd (transfer_data_start t pid est_size) (\<lambda>(t, dp).
     bnd (nonnull dp) (\<lambda>dp.
     bnd (arr_write (t_data t) dp payload) (\<lambda>d.
       transfer_data_end (t\<lparr>t_data := d\<rparr>) (dp + length payload))))"

definition data_packet :: "u8 \<Rightarrow> u8 list \<Rightarrow> u8 list" where
  "data_packet pid payload =
     pid # payload @ [to_u8 (crc16_bytes payload), to_u8 (drop_bit 8 (crc16_bytes payload))]"

lemma length_data_packet [simp]: "length (data_packet pid payload) = length payload + 3"
  by (simp add: data_packet_def)

lemma transfer_data_start_eq:
  assumes "wf_transfer t" "pid = USB_PID_DATA0 \<or> pid = USB_PID_DATA1"
    and "unat (t_num_bytes t) + unat est_size \<le> 72"
  shows "transfer_data_start t pid est_size =
    Inr (t\<lparr>t_data_start := t_num_bytes t, t_data := (t_data t)[unat (t_num_bytes t) := pid],
           t_num_bytes := t_num_bytes t + 1\<rparr>, Some (unat (t_num_bytes t) + 1))"
proof -
  let ?n = "unat (t_num_bytes t)"
  have "ucast (t_num_bytes t) \<le> (72 :: 64 word)"
    using assms(3) by (simp add: word_le_nat_alt unat_ucast_up)
  then have "unat (72 - ucast (t_num_bytes t) :: 64 word) = 72 - ?n"
    by (simp add: unat_sub unat_ucast_up)
  moreover have "unat (ucast est_size :: 64 word) = unat est_size"
    by (simp add: unat_ucast_up)
  ultimately have "\<not> (ucast est_size :: 64 word) > of_nat USBDPI_MAX_DATA - 1 - ucast (t_num_bytes t)"
    using assms(3) by (simp add: word_less_nat_alt)
  then show ?thesis
    using assms by (simp add: transfer_data_start_def wf_transfer_def Let_def)
qed


lemma data_stage_eq:
  assumes wf: "wf_transfer t" and pid: "pid = USB_PID_DATA0 \<or> pid = USB_PID_DATA1"
    and est: "unat (t_num_bytes t) + unat est_size \<le> 72"
    and room: "unat (t_num_bytes t) + length payload < 70"
  shows "data_stage t pid est_size payload =
    Inr (t\<lparr>t_data_start := t_num_bytes t,
           t_num_bytes := of_nat (unat (t_num_bytes t) + 3 + length payload),
           t_data := take (unat (t_num_bytes t)) (t_data t) @ data_packet pid payload
             @ drop (unat (t_num_bytes t) + 3 + length payload) (t_data t)\<rparr>)"
proof -
  let ?n = "unat (t_num_bytes t)" and ?k = "length payload"
  have len: "length (t_data t) = 73" using wf by (simp add: wf_transfer_def)
  have "?n \<le> length (t_data t)" using room len by simp
  then obtain pre rest where 1: "t_data t = pre @ rest" "length pre = ?n" "length rest = length (t_data t) - ?n"
    by (rule split_at)
  have "?k + 1 \<le> length rest" using 1 room len by simp
  then obtain xmid post where 2: "rest = xmid @ post" "length xmid = ?k + 1" "length post = length rest - (?k + 1)"
    by (rule split_at)
  obtain x mid where 3: "xmid = x # mid" "length mid = ?k" using 2(2) by (cases xmid) auto
  have "2 \<le> length post" using 1(3) 2(2,3) room len by simp
  then obtain a b r where 4: "post = a # b # r" by (rule length_ge_2E)
  have data: "t_data t = pre @ x # mid @ a # b # r"
    by (simp add: 1 2 3 4)
  have ds: "t_num_bytes t \<noteq> 0xff" using room by auto
  have upd: "(t_data t)[?n := pid] = pre @ pid # mid @ a # b # r"
    by (simp add: data 1(2) [symmetric])
  have ds1: "transfer_data_start t pid est_size = Inr (t\<lparr>t_data_start := t_num_bytes t,
      t_data := pre @ pid # mid @ a # b # r, t_num_bytes := t_num_bytes t + 1\<rparr>, Some (?n + 1))"
    using transfer_data_start_eq [OF wf pid est] by (simp add: upd)
  have wr: "arr_write (pre @ pid # mid @ a # b # r) (?n + 1) payload = Inr (pre @ pid # payload @ a # b # r)"
    using 1(2) 3(2) by (simp add: arr_write_def)
  have crc: "CRC16 (drop (?n + 1) (pre @ pid # payload @ a # b # r))
      (int (?n + 1 + ?k) - int (?n + 1)) = Inr (crc16_bytes payload)"
    using 1(2) by (simp add: CRC16_def)
  have dr: "drop (3 + ?k) (x # mid @ a # b # r) = r"
    using 3(2) by (simp add: numeral_3_eq_3)
  show ?thesis
    using ds crc 1(2) 3(2) room
    by (simp add: data_stage_def ds1 wr transfer_data_end_def data data_packet_def list_update_append
        Let_def dr add.left_commute [of 3])
qed


lemma wf_data_stage:
  assumes "wf_transfer t" "pid = USB_PID_DATA0 \<or> pid = USB_PID_DATA1"
    and "unat (t_num_bytes t) + unat est_size \<le> 72" "unat (t_num_bytes t) + length payload < 70"
  shows "wp no_error (data_stage t pid est_size payload)
    (\<lambda>t'. wf_transfer t' \<and> unat (t_num_bytes t') = unat (t_num_bytes t) + 3 + length payload
          \<and> t_next t' = t_next t)"
proof -
  have "unat (of_nat (unat (t_num_bytes t) + 3 + length payload) :: u8)
      = unat (t_num_bytes t) + 3 + length payload"
    using assms(4) by (intro unat_of_nat_small) simp
  then show ?thesis
    unfolding data_stage_eq [OF assms] using assms by (simp add: wf_transfer_def)
qed

lemma token_bytes_fields:
  assumes "device < 0x80" "endpoint < 0x10"
    and "token_bytes pid device endpoint = [p, d0, d1]"
  shows "p = pid \<and> d0 AND 0x7f = device \<and> push_bit 1 (d1 AND 7) OR drop_bit 7 d0 = endpoint
       \<and> CRC5 (push_bit 8 (to_u32 d1 AND 7) OR to_u32 d0) 11 = to_u32 (drop_bit 3 d1)"
proof -
  have dev: "\<not> bit device k" if "7 \<le> k" for k
    using less_power_bits [of device 7 k] assms(1) that by simp
  have ep: "\<not> bit endpoint k" if "4 \<le> k" for k
    using less_power_bits [of endpoint 4 k] assms(2) that by simp
  let ?crc = "CRC5 (push_bit 7 (to_u32 endpoint) OR to_u32 device) 11"
  have crc: "\<not> bit ?crc k" if "5 \<le> k" for k
    using low_bits_CRC5 [of 11] that by (simp add: low_bits_def)
  have d: "p = pid" "d0 = to_u8 (to_u32 device OR push_bit 7 (to_u32 endpoint))"
    "d1 = to_u8 (drop_bit 1 (to_u32 endpoint) OR push_bit 3 ?crc)"
    using assms(3) by (simp_all add: token_bytes_def)
  have "d0 AND 0x7f = device"
  proof (rule bit_word_eqI)
    fix k :: nat assume "k < LENGTH(8)"
    then show "bit (d0 AND 0x7f) k = bit device k"
      unfolding d bit_and_iff bit_7f_iff using dev [of k]
      by (cases "k < 7") (auto simp: bit_simps)
  qed
  moreover have "push_bit 1 (d1 AND 7) OR drop_bit 7 d0 = endpoint"
  proof (rule bit_word_eqI)
    fix k :: nat assume "k < LENGTH(8)"
    then consider "k = 0" | "0 < k" "k < 4" | "4 \<le> k" "k < 8" by fastforce
    then show "bit (push_bit 1 (d1 AND 7) OR drop_bit 7 d0) k = bit endpoint k"
      unfolding d bit_or_iff bit_push_bit_iff bit_and_iff bit_7_iff
      using dev [of 7] ep [of k] by cases (auto simp: bit_simps dev ep)
  qed
  moreover have "push_bit 8 (to_u32 d1 AND 7) OR to_u32 d0 = push_bit 7 (to_u32 endpoint) OR to_u32 device"
  proof (rule bit_word_eqI)
    fix k :: nat assume "k < LENGTH(32)"
    then consider "k < 8" | "8 \<le> k" "k < 11" "k - 8 < 3" "Suc (k - 8) = k - 7"
      | "11 \<le> k" "k < 32" by fastforce
    then show "bit (push_bit 8 (to_u32 d1 AND 7) OR to_u32 d0) k
        = bit (push_bit 7 (to_u32 endpoint) OR to_u32 device) k"
      unfolding d bit_or_iff bit_push_bit_iff bit_and_iff bit_7_iff
      by cases (auto simp: bit_simps dev ep)
  qed
  moreover have "to_u32 (drop_bit 3 d1) = ?crc"
  proof (rule bit_word_eqI)
    fix k :: nat assume "k < LENGTH(32)"
    then consider "k < 5" | "5 \<le> k" by fastforce
    then show "bit (to_u32 (drop_bit 3 d1)) k = bit ?crc k"
      unfolding d by cases (auto simp: bit_simps ep crc)
  qed
  ultimately show ?thesis using d(1) by simp
qed

section \<open>Properties\<close>

text \<open>
  C7: a token built in a descriptor, whatever the descriptor held, is three bytes without a
  data stage: the PID, and two bytes from which the address and the endpoint are read back
  and whose five bits on top are the CRC5 of the eleven below; the rest of the buffer stays.
\<close>

theorem token_fields:
  assumes "wf_transfer t" "device < 0x80" "endpoint < 0x10"
  shows "\<exists>t' d0 d1. transfer_token t pid device endpoint = Inr t' \<and> t_num_bytes t' = 3
    \<and> t_data_start t' = USBDPI_NO_DATA_STAGE \<and> t_next t' = None
    \<and> t_data t' = [pid, d0, d1] @ drop 3 (t_data t)
    \<and> d0 AND 0x7f = device \<and> push_bit 1 (d1 AND 7) OR drop_bit 7 d0 = endpoint
    \<and> CRC5 (push_bit 8 (to_u32 d1 AND 7) OR to_u32 d0) 11 = to_u32 (drop_bit 3 d1)"
proof -
  obtain p d0 d1 where d: "token_bytes pid device endpoint = [p, d0, d1]"
    by (simp add: token_bytes_def)
  show ?thesis
    unfolding transfer_token_eq [OF assms] d
    by (rule exI [of _ "t\<lparr>t_next := None, t_num_bytes := 3, t_data_start := 0xff,
          t_data := [p, d0, d1] @ drop 3 (t_data t)\<rparr>"], rule exI [of _ d0], rule exI [of _ d1])
       (use token_bytes_fields [OF assms(2,3) d] in simp)
qed

theorem token_fields_witness:
  "\<exists>t' d0 d1. transfer_token zero_transfer USB_PID_IN 2 1 = Inr t' \<and> t_num_bytes t' = 3
    \<and> t_data t' = [USB_PID_IN, d0, d1] @ replicate 70 0
    \<and> d0 AND 0x7f = 2 \<and> push_bit 1 (d1 AND 7) OR drop_bit 7 d0 = 1"
  using token_fields [OF wf_zero_transfer, of 2 1 USB_PID_IN]
  by (auto simp: zero_transfer_def)

text \<open>
  C6: a data stage built by \<open>transfer_data_start\<close>, the payload stores and
  \<open>transfer_data_end\<close> succeeds whenever it fits, leaves what preceded it, and the packet
  accessors then return its PID, its payload and the CRC16 of the payload.
\<close>

theorem data_stage_packet:
  assumes wf: "wf_transfer t" and pid: "pid = USB_PID_DATA0 \<or> pid = USB_PID_DATA1"
    and est: "unat (t_num_bytes t) + unat est_size \<le> 72"
    and room: "unat (t_num_bytes t) + length payload < 70"
  shows "\<exists>t'. data_stage t pid est_size payload = Inr t' \<and> wf_transfer t'
    \<and> unat (t_num_bytes t') = unat (t_num_bytes t) + 3 + length payload
    \<and> take (unat (t_num_bytes t)) (t_data t') = take (unat (t_num_bytes t)) (t_data t)
    \<and> transfer_data_pid t' = Inr pid
    \<and> transfer_data_field t' = Some (unat (t_num_bytes t) + 1)
    \<and> take (length payload) (drop (unat (t_num_bytes t) + 1) (t_data t')) = payload
    \<and> get_le16 (drop (unat (t_num_bytes t) + 1 + length payload) (t_data t'))
        = Inr (to_u16 (crc16_bytes payload))"
proof -
  let ?n = "unat (t_num_bytes t)" and ?k = "length payload"
  let ?t = "t\<lparr>t_data_start := t_num_bytes t, t_num_bytes := of_nat (?n + 3 + ?k),
    t_data := take ?n (t_data t) @ data_packet pid payload @ drop (?n + 3 + ?k) (t_data t)\<rparr>"
  have eq: "data_stage t pid est_size payload = Inr ?t"
    by (rule data_stage_eq [OF assms])
  have len: "length (t_data t) = 73" using wf by (simp add: wf_transfer_def)
  have n': "unat (of_nat (?n + 3 + ?k) :: u8) = ?n + 3 + ?k"
    using room by (intro unat_of_nat_small) simp
  have ds: "t_num_bytes t \<noteq> 0xff" using room by auto
  have "wf_transfer ?t"
    using wf_data_stage [OF assms] by (simp add: eq)
  moreover have "transfer_data_pid ?t = Inr pid" "transfer_data_field ?t = Some (?n + 1)"
    using n' ds len room by (simp_all add: transfer_data_pid_def transfer_data_field_def
        data_packet_def arr_get_def nth_append del: of_nat_add)
  moreover have "get_le16 (drop (?n + 1 + ?k) (t_data ?t)) = Inr (to_u16 (crc16_bytes payload))"
    using len room by (simp add: get_le16_def data_packet_def le16_bits_u32)
  ultimately show ?thesis
    using eq n' len room by (intro exI [of _ ?t]) (simp add: data_packet_def del: of_nat_add)
qed

theorem data_stage_packet_witness:
  "\<exists>t'. data_stage zero_transfer USB_PID_DATA1 2 [0x12, 0x34] = Inr t' \<and> wf_transfer t'
    \<and> unat (t_num_bytes t') = 5
    \<and> transfer_data_pid t' = Inr USB_PID_DATA1
    \<and> transfer_data_field t' = Some 1
    \<and> take 2 (drop 1 (t_data t')) = [0x12, 0x34]
    \<and> get_le16 (drop 3 (t_data t')) = Inr (to_u16 (crc16_bytes [0x12, 0x34]))"
proof -
  have n: "unat (t_num_bytes zero_transfer) = 0" "length [0x12, 0x34 :: u8] = 2"
    "0 + 3 + (2 :: nat) = 5" "0 + (1 :: nat) = 1" "1 + (2 :: nat) = 3"
    by (simp_all add: zero_transfer_def)
  show ?thesis
    using data_stage_packet [where t = zero_transfer and pid = USB_PID_DATA1 and est_size = 2
        and payload = "[0x12, 0x34]", unfolded n]
    by simp
qed

text \<open>
  The space check of \<open>transfer_data_start\<close> wraps for a full descriptor: it passes and the
  PID is stored beyond the buffer.
\<close>

lemma transfer_data_start_full:
  assumes "wf_transfer t" "t_num_bytes t = 73"
  shows "transfer_data_start t USB_PID_DATA0 0 = Inl OutOfBounds"
  using assms by (simp add: transfer_data_start_def wf_transfer_def arr_set_def)

end
