(* ===== verification/Monitor.thy ===== *)
theory Monitor
  imports Usb_Defs Crc Utils
begin

text \<open>
  The bus monitor of \<open>usb_monitor.c\<close>: it samples the D+/D- pair once per bit interval,
  finds SYNC and end of packet, undoes NRZI coding and bit stuffing, collects bytes,
  reports them to its client through a callback and writes a log.  The monitor's record
  holds the fields of \<open>struct usb_monitor_ctx\<close>; the log file is the list of strings
  written to it.  The client is a parameter: its state type \<open>'c\<close>, the callback (\<open>None\<close>
  when no callback is registered) and the store through the \<open>lastpid\<close> pointer.  C \<open>int\<close>
  shift registers are 32-bit words.
\<close>

section \<open>State\<close>

datatype mon_state = MS_IDLE | MS_GET_PID | MS_GET_BYTES

fun mon_state_code :: "mon_state \<Rightarrow> u32" where
  "mon_state_code MS_IDLE = 0"
| "mon_state_code MS_GET_PID = 1"
| "mon_state_code MS_GET_BYTES = 2"

datatype mon_driver = M_NONE | M_HOST | M_DEVICE

definition SE0 :: u32 where [simp]: "SE0 = 0"
definition DK :: u32 where [simp]: "DK = 1"
definition DJ :: u32 where [simp]: "DJ = 2"
definition MON_BYTES_SIZE :: nat where [simp]: "MON_BYTES_SIZE = 1024"
definition MAX_OBUF :: nat where [simp]: "MAX_OBUF = 80"

record monitor =
  m_file :: "string list"
  m_state :: mon_state
  m_driver :: mon_driver
  m_pu :: u32
  m_line :: u32
  m_rawbits :: u32
  m_bits :: u32
  m_needbits :: u32
  m_sopAt :: u32
  m_lastpid :: u8
  m_byte :: u8
  m_bytes :: "u8 list"

type_synonym 'c mon_callback = "(mon_data_type \<Rightarrow> u8 \<Rightarrow> 'c \<Rightarrow> 'c res) option"

definition data_callback :: "'c mon_callback \<Rightarrow> mon_data_type \<Rightarrow> u8 \<Rightarrow> 'c \<Rightarrow> 'c res" where
  "data_callback cb type d c = (case cb of None \<Rightarrow> Inr c | Some f \<Rightarrow> f type d c)"

text \<open>Creation; \<open>opened\<close> says whether \<open>fopen\<close> succeeded, \<open>None\<close> is the \<open>NULL\<close> result.\<close>

definition usb_monitor_init :: "bool \<Rightarrow> monitor option" where
  "usb_monitor_init opened =
     (if opened
      then Some \<lparr>m_file = [], m_state = MS_IDLE, m_driver = M_NONE, m_pu = 0, m_line = 0,
             m_rawbits = 0, m_bits = 0, m_needbits = 0, m_sopAt = 0, m_lastpid = 0,
             m_byte = 0, m_bytes = replicate (MON_BYTES_SIZE + 2) 0\<rparr>
      else None)"

text \<open>\<open>fprintf\<close> on the log file.\<close>

definition mon_printf :: "monitor \<Rightarrow> string \<Rightarrow> monitor" where
  "mon_printf mon s = mon\<lparr>m_file := m_file mon @ [s]\<rparr>"

text \<open>
  \<open>usb_monitor_log\<close> on the formatted message \<open>msg\<close>: \<open>vsnprintf\<close> keeps what fits in the
  buffer with its terminator but returns the full length, which \<open>fwrite\<close> then reads.
\<close>

definition usb_monitor_log :: "monitor \<Rightarrow> string \<Rightarrow> monitor res" where
  "usb_monitor_log mon msg =
     (let n = length msg; obuf = take (MAX_OBUF - 1) msg @ [CHR 0x00] in
      if n < MAX_OBUF then Inr (mon_printf mon msg)
      else if n = MAX_OBUF then Inr (mon_printf mon obuf)
      else Inl OutOfBounds)"

section \<open>Decoding a packet for the log\<close>

definition pid_2data :: "u8 \<Rightarrow> u8 \<Rightarrow> u8 \<Rightarrow> string" where
  "pid_2data pid d0 d1 =
     (let w = push_bit 8 (to_u32 d1 AND 7) OR to_u32 d0;
          comp_crc = CRC5 w 11;
          crcok = (if comp_crc = drop_bit 3 (to_u32 d1) then ''OK'' else ''BAD'') in
      if pid = USB_PID_SOF then
        ''SOF '' @ hex0 3 w @ '' (CRC5 '' @ hex0 2 (drop_bit 3 d1) @ '' '' @ crcok @ '')''
      else if pid = USB_PID_SETUP \<or> pid = USB_PID_OUT \<or> pid = USB_PID_IN then
        decode_pid pid @ '' '' @ dec (to_u32 (d0 AND 0x7f)) @ ''.''
          @ dec (push_bit 1 (to_u32 d1 AND 7) OR drop_bit 7 (to_u32 d0))
          @ '' (CRC5 '' @ hex0 2 (drop_bit 3 d1) @ '' '' @ crcok @ '')''
      else if pid = USB_PID_DATA0 \<or> pid = USB_PID_DATA1 then
        decode_pid pid @ '' '' @ hex0 2 d0 @ '', '' @ hex0 2 d1 @ '' (''
          @ (if d0 OR d1 \<noteq> 0 then ''CRC16 BAD'' else ''NULL'') @ '')''
      else if drop_bit 4 pid XOR 0xf = pid AND 0xf then
        decode_pid pid @ '' '' @ hex0 2 d0 @ '', '' @ hex0 2 d1 @ '' (CRC5 '' @ crcok @ '')''
      else
        ''BAD PID '' @ decode_pid pid @ '' '' @ hex0 2 d0 @ '', '' @ hex0 2 d1
          @ '' (CRC5 '' @ crcok @ '')'')"

fun drv_char :: "mon_driver \<Rightarrow> string" where
  "drv_char M_HOST = ''H''"
| "drv_char M_DEVICE = ''D''"
| "drv_char M_NONE = ''D''"

text \<open>The report at the end of a packet that carried data bytes.\<close>

definition mon_log_packet :: "monitor \<Rightarrow> bool \<Rightarrow> u32 \<Rightarrow> monitor res" where
  "mon_log_packet mon compact tick_bits =
     (let b = m_byte mon;
          head = ''mon: '' @ dec8 (m_sopAt mon) @ '' -- '' @ dec8 tick_bits @ '': (''
                   @ drv_char (m_driver mon) @ '') SOP, PID '' in
      if compact \<and> b = 2 then
        bnd (arr_get (m_bytes mon) 0) (\<lambda>d0. bnd (arr_get (m_bytes mon) 1) (\<lambda>d1.
          Inr (mon_printf mon (head @ pid_2data (m_lastpid mon) d0 d1 @ '', EOP'' @ nl))))
      else if compact \<and> b = 1 then
        bnd (arr_get (m_bytes mon) 0) (\<lambda>d0.
          Inr (mon_printf mon (head @ decode_pid (m_lastpid mon) @ '' '' @ hex0 2 d0 @ '' EOP'' @ nl)))
      else
        let mon = (if compact then mon_printf mon (head @ decode_pid (m_lastpid mon) @ '', EOP'' @ nl)
                   else mon);
            mon = mon_printf mon (''mon:     '' @ (if m_driver mon = M_HOST then ''h->d'' else ''d->h'')
                                    @ '':'' @ nl) in
        bnd (CRC16 (m_bytes mon) (uint b - 2)) (\<lambda>comp_crc16.
        bnd (arr_geti (m_bytes mon) (uint b - 2)) (\<lambda>c0.
        bnd (arr_geti (m_bytes mon) (uint b - 1)) (\<lambda>c1.
        let pkt_crc16 = to_u32 c0 OR push_bit 8 (to_u32 c1) in
        bnd (dump_bytes (Some ''mon:          '') (m_bytes mon) (nat (uint b - 2))) (\<lambda>ls.
        let mon = mon\<lparr>m_file := m_file mon @ ls\<rparr>;
            mon = mon_printf mon (nl @ ''mon:          (CRC16 '' @ hex0 2 c0 @ '' '' @ hex0 2 c1) in
        Inr (mon_printf mon
               (if comp_crc16 = pkt_crc16 then '' OK)'' @ nl
                else '' BAD)'' @ nl @ ''mon:           CRC16 '' @ hex0 4 pkt_crc16 @ '' BAD expected ''
                       @ hex0 4 comp_crc16 @ nl)))))))"

section \<open>One bit interval\<close>

text \<open>
  The state of the D+/D- pair, as the code derives it; \<open>None\<close> when nobody drives the bus.
  The pair is swapped when the device's pullup is on D-.
\<close>

definition device_lines :: "u32 \<Rightarrow> bool \<times> bool" where
  "device_lines d2p =
     (if has d2p D2P_TX_USE_D_SE0 then
        if has d2p D2P_SE0 \<or> \<not> has d2p D2P_D_EN then (False, False)
        else (has d2p D2P_D, \<not> has d2p D2P_D)
      else (has d2p D2P_DP_EN \<and> has d2p D2P_DP, has d2p D2P_DN_EN \<and> has d2p D2P_DN))"

definition host_lines :: "u32 \<Rightarrow> u32 \<Rightarrow> bool \<times> bool" where
  "host_lines p2d d2p =
     (if has d2p D2P_RX_ENABLE then
        if has p2d (P2D_DP OR P2D_DN) then (has p2d P2D_D, \<not> has p2d P2D_D) else (False, False)
      else (has p2d P2D_DP, has p2d P2D_DN))"

definition device_drives :: "u32 \<Rightarrow> bool" where
  "device_drives d2p \<longleftrightarrow> has d2p D2P_DP_EN \<or> has d2p D2P_DN_EN \<or> has d2p D2P_D_EN"

definition swap_lines :: "u32 \<Rightarrow> bool \<times> bool \<Rightarrow> bool \<times> bool" where
  "swap_lines d2p l = (if has d2p D2P_DNPU then (snd l, fst l) else l)"

definition mon_sample ::
  "monitor \<Rightarrow> bool \<Rightarrow> u32 \<Rightarrow> bool \<Rightarrow> u32 \<Rightarrow> u32 \<Rightarrow> monitor \<times> (bool \<times> bool) option" where
  "mon_sample mon log tick_bits hdrive p2d d2p =
     (if device_drives d2p then
        let mon = (if hdrive then mon_printf mon (''mon: '' @ dec8 tick_bits @ '': Bus clash'' @ nl)
                   else mon)
        in (mon\<lparr>m_driver := M_DEVICE\<rparr>, Some (swap_lines d2p (device_lines d2p)))
      else if hdrive then
        (mon\<lparr>m_driver := M_HOST\<rparr>, Some (swap_lines d2p (host_lines p2d d2p)))
      else
        let mon =
          (if m_driver mon \<noteq> M_NONE \<or> m_pu mon \<noteq> d2p AND D2P_PU then
             let mon =
               (if log then
                  if has d2p D2P_PU
                  then mon_printf mon (''mon: '' @ dec8 tick_bits @ '': Idle, FS resistor (d2p 0x''
                                         @ hex d2p @ '')'' @ nl)
                  else mon_printf mon (''mon: '' @ dec8 tick_bits @ '': Idle, SE0'' @ nl)
                else mon)
             in mon\<lparr>m_driver := M_NONE, m_pu := d2p AND D2P_PU\<rparr>
           else mon)
        in (mon\<lparr>m_line := 0\<rparr>, None))"

definition line_pair :: "bool \<times> bool \<Rightarrow> u32" where
  "line_pair l = (if fst l then 2 else 0) OR (if snd l then 1 else 0)"

definition sync_pattern :: u32 where
  "sync_pattern = push_bit 10 DK OR push_bit 8 DJ OR push_bit 6 DK OR push_bit 4 DJ
     OR push_bit 2 DK OR DK"

definition eop_pattern :: u32 where
  "eop_pattern = push_bit 4 SE0 OR push_bit 2 SE0 OR DJ"

text \<open>A complete byte: the PID, or a byte of the packet's body.\<close>

definition mon_complete ::
  "'c mon_callback \<Rightarrow> (u8 \<Rightarrow> 'c \<Rightarrow> 'c) \<Rightarrow> monitor \<Rightarrow> bool \<Rightarrow> u32 \<Rightarrow> 'c \<Rightarrow> (monitor \<times> 'c) res" where
  "mon_complete cb set_lastpid mon log tick_bits c =
     (case m_state mon of
        MS_GET_PID \<Rightarrow>
          let pid = to_u8 (m_bits mon);
              head = ''mon: '' @ dec8 tick_bits @ '': ('' @ drv_char (m_driver mon) @ '') '';
              (mon, c) =
                (if pid_bad pid then
                   (if log then mon_printf mon (head @ ''BAD PID 0x'' @ hex pid @ nl) else mon, c)
                 else
                   let mon = mon\<lparr>m_lastpid := pid\<rparr> in
                   (if log then mon_printf mon (head @ ''PID '' @ decode_pid pid @ '' (0x'' @ hex pid
                                                  @ '')'' @ nl) else mon,
                    set_lastpid pid c));
              mon = mon\<lparr>m_state := MS_GET_BYTES, m_needbits := 8, m_byte := 0\<rparr>
          in bnd (data_callback cb UsbMon_DataType_PID pid c) (\<lambda>c. Inr (mon, c))
      | MS_GET_BYTES \<Rightarrow>
          let d = to_u8 (m_bits mon) in
          bnd (arr_set (m_bytes mon) (unat (m_byte mon)) d) (\<lambda>bs.
          let mon = mon\<lparr>m_bytes := bs, m_needbits := 8\<rparr>;
              mon = (if unat (m_byte mon) < MON_BYTES_SIZE then mon\<lparr>m_byte := m_byte mon + 1\<rparr>
                     else mon) in
          bnd (data_callback cb UsbMon_DataType_Byte d c) (\<lambda>c. Inr (mon, c)))
      | MS_IDLE \<Rightarrow> Inr (mon, c))"

definition mon_eop ::
  "'c mon_callback \<Rightarrow> monitor \<Rightarrow> bool \<Rightarrow> bool \<Rightarrow> u32 \<Rightarrow> 'c \<Rightarrow> (monitor \<times> 'c) res" where
  "mon_eop cb mon log compact tick_bits c =
     bnd (if (log \<or> compact) \<and> m_state mon = MS_GET_BYTES \<and> m_byte mon > 0
          then mon_log_packet mon compact tick_bits
          else if compact
          then Inr (mon_printf mon (''mon: '' @ dec8 (m_sopAt mon) @ '' -- '' @ dec8 tick_bits @ '': (''
                      @ drv_char (m_driver mon) @ '') SOP, PID '' @ decode_pid (m_lastpid mon)
                      @ '' EOP'' @ nl))
          else Inr mon) (\<lambda>mon.
     let mon = (if log then mon_printf mon (''mon: '' @ dec8 tick_bits @ '': ('' @ drv_char (m_driver mon)
                              @ '') EOP'' @ nl) else mon);
         mon = mon\<lparr>m_state := MS_IDLE\<rparr> in
     bnd (data_callback cb UsbMon_DataType_EOP 0 c) (\<lambda>c. Inr (mon, c)))"

text \<open>One data bit outside SYNC and EOP: the new line state is already shifted in.\<close>

definition mon_bit ::
  "'c mon_callback \<Rightarrow> (u8 \<Rightarrow> 'c \<Rightarrow> 'c) \<Rightarrow> monitor \<Rightarrow> bool \<Rightarrow> u32 \<Rightarrow> 'c \<Rightarrow> (monitor \<times> 'c) res" where
  "mon_bit cb set_lastpid mon log tick_bits c =
     (let newbit = (drop_bit 2 (m_line mon AND 0xc) = m_line mon AND 3);
          mon = mon\<lparr>m_rawbits := push_bit 1 (m_rawbits mon) OR (if newbit then 1 else 0)\<rparr> in
      if m_rawbits mon AND 0x7e = 0x7e then
        Inr (if newbit
             then mon_printf mon (''mon: '' @ dec8 tick_bits @ '': ('' @ drv_char (m_driver mon)
                    @ '') Bitstuff error, got 1 after 0x'' @ hex (m_rawbits mon) @ nl)
             else mon, c)
      else
        let mon = mon\<lparr>m_bits := drop_bit 1 (m_bits mon) OR (if newbit then 0x80 else 0),
                       m_needbits := m_needbits mon - 1\<rparr> in
        if m_needbits mon \<noteq> 0 then Inr (mon, c)
        else mon_complete cb set_lastpid mon log tick_bits c)"

text \<open>The new state of the pair is shifted in and searched for SYNC, end of packet or a bit.\<close>

definition mon_line ::
  "'c mon_callback \<Rightarrow> (u8 \<Rightarrow> 'c \<Rightarrow> 'c) \<Rightarrow> monitor \<Rightarrow> bool \<Rightarrow> bool \<Rightarrow> u32 \<Rightarrow> bool \<times> bool \<Rightarrow> 'c
     \<Rightarrow> (monitor \<times> 'c) res" where
  "mon_line cb set_lastpid mon log compact tick_bits l c =
     (let mon = mon\<lparr>m_line := push_bit 2 (m_line mon) OR line_pair l\<rparr> in
      if m_state mon = MS_IDLE then
        if m_line mon AND 0xfff = sync_pattern then
          let mon = (if log then mon_printf mon (''mon: '' @ dec8 tick_bits @ '': (''
                                   @ drv_char (m_driver mon) @ '') SOP'' @ nl) else mon);
              mon = mon\<lparr>m_sopAt := tick_bits, m_state := MS_GET_PID, m_needbits := 8\<rparr> in
          bnd (data_callback cb UsbMon_DataType_Sync 0 c) (\<lambda>c. Inr (mon, c))
        else Inr (mon, c)
      else if m_line mon AND 0x3f = eop_pattern then mon_eop cb mon log compact tick_bits c
      else mon_bit cb set_lastpid mon log tick_bits c)"

definition usb_monitor ::
  "'c mon_callback \<Rightarrow> (u8 \<Rightarrow> 'c \<Rightarrow> 'c) \<Rightarrow> monitor option \<Rightarrow> u32 \<Rightarrow> u32 \<Rightarrow> bool \<Rightarrow> u32 \<Rightarrow> u32 \<Rightarrow> 'c
     \<Rightarrow> (monitor \<times> 'c) res" where
  "usb_monitor cb set_lastpid mon loglevel tick_bits hdrive p2d d2p c =
     (let log = has loglevel 2; compact = has loglevel 1 in
      bnd (cassert ''mon'' (mon \<noteq> None)) (\<lambda>_.
      bnd (nonnull mon) (\<lambda>mon.
      case mon_sample mon log tick_bits hdrive p2d d2p of
        (mon, None) \<Rightarrow> Inr (mon, c)
      | (mon, Some l) \<Rightarrow> mon_line cb set_lastpid mon log compact tick_bits l c)))"

definition usb_monitor_diags :: "monitor option \<Rightarrow> u32 res" where
  "usb_monitor_diags mon =
     bnd (nonnull mon) (\<lambda>mon.
     bnd (if m_byte mon > 0 \<and> unat (m_byte mon) \<le> MON_BYTES_SIZE
          then bnd (arr_get (m_bytes mon) (unat (m_byte mon) - 1)) (\<lambda>b. Inr (push_bit 8 (to_u32 b)))
          else Inr 0) (\<lambda>b.
       Inr (to_u32 (m_lastpid mon) OR b OR push_bit 16 (m_needbits mon)
            OR push_bit 20 (mon_state_code (m_state mon)))))"

end
