(* ===== verification/Dpi_Context.thy ===== *)
theory Dpi_Context
  imports Transfer_Desc Monitor
begin

text \<open>
  The state of the host model, \<open>struct usbdpi_ctx\<close> of \<open>usbdpi.h\<close> with the stream contexts
  of \<open>usbdpi_stream.h\<close>, and the operations of \<open>usb_transfer.c\<close> and \<open>usbdpi.c\<close> that the
  rest of the model is built from: the pool of transfer descriptors, sending a
  descriptor, the bus reset and the output drivers.  Pointers to descriptors are indices
  into the pool, so that aliasing between the free list, the descriptor being sent, the
  one being received and the streams' queues is explicit.
\<close>

section \<open>State\<close>

record stream =
  s_id :: u8
  s_retrieve :: bool
  s_send :: bool
  s_retrying :: bool
  s_checking :: bool
  s_sig_expected :: bool
  s_xfr_type :: u8
  s_ep_in :: u8
  s_ep_out :: u8
  s_tst_seq :: u16
  s_tst_lfsr :: u8
  s_dpi_lfsr :: u8
  s_retry_lfsr :: u8
  s_nretries :: u8
  s_dpi_rewind_lfsr :: u8
  s_received :: "nat option"

definition zero_stream :: stream where
  "zero_stream = \<lparr>s_id = 0, s_retrieve = False, s_send = False, s_retrying = False,
     s_checking = False, s_sig_expected = False, s_xfr_type = 0, s_ep_in = 0, s_ep_out = 0,
     s_tst_seq = 0, s_tst_lfsr = 0, s_dpi_lfsr = 0, s_retry_lfsr = 0, s_nretries = 0,
     s_dpi_rewind_lfsr = 0, s_received = None\<rparr>"

text \<open>
  \<open>c_ep_in\<close> and \<open>c_ep_out\<close> hold the \<open>next_data\<close> PID of each endpoint.  \<open>c_byte\<close> counts the
  bytes sent; \<open>c_bit\<close> is the one-bit mask of the next bit; \<open>c_mon\<close> is \<open>None\<close> for \<open>NULL\<close>.
\<close>

record ctx =
  c_bus_state :: bus_state
  c_driving :: u32
  c_linebits :: u32
  c_bit :: u32
  c_byte :: nat
  c_test_number :: u32
  c_test_arg :: "u8 list"
  c_test_status :: u32
  c_ep_in :: "u8 list"
  c_ep_out :: "u8 list"
  c_nstreams :: u8
  c_stream_in :: u8
  c_stream_out :: u8
  c_stream :: "stream list"
  c_loglevel :: u32
  c_mon :: "monitor option"
  c_hostSt :: host_state
  c_recving :: "nat option"
  c_sending :: "nat option"
  c_last_pu :: u32
  c_lastrxpid :: u8
  c_tick :: u32
  c_tick_bits :: u32
  c_recovery_time :: u32
  c_step :: u32
  c_num_tries :: u8
  c_frame :: u16
  c_framepend :: bool
  c_frame_start :: u32
  c_wait :: u32
  c_state :: drv_state
  c_baudrate_set_successfully :: u32
  c_dev_address :: u8
  c_cfg_desc_len :: u16
  c_free :: "nat option"
  c_pool :: "transfer list"

section \<open>Access to a descriptor of the pool\<close>

definition get_tr :: "ctx \<Rightarrow> nat option \<Rightarrow> transfer res" where
  "get_tr c tr = bnd (nonnull tr) (\<lambda>i. arr_get (c_pool c) i)"

definition upd_tr :: "ctx \<Rightarrow> nat option \<Rightarrow> (transfer \<Rightarrow> transfer res) \<Rightarrow> ctx res" where
  "upd_tr c tr f =
     bnd (nonnull tr) (\<lambda>i. bnd (arr_get (c_pool c) i) (\<lambda>t. bnd (f t) (\<lambda>t.
       Inr (c\<lparr>c_pool := (c_pool c)[i := t]\<rparr>))))"

definition upd_stream :: "ctx \<Rightarrow> nat \<Rightarrow> (stream \<Rightarrow> stream) \<Rightarrow> ctx" where
  "upd_stream c i f = c\<lparr>c_stream := (c_stream c)[i := f (c_stream c ! i)]\<rparr>"

section \<open>The descriptor pool\<close>

text \<open>The \<open>while (--idx >= 0)\<close> loop; the first argument is the number of entries left.\<close>

fun transfer_setup_loop :: "nat \<Rightarrow> nat option \<Rightarrow> transfer list \<Rightarrow> transfer list \<times> nat option" where
  "transfer_setup_loop 0 nxt pool = (pool, nxt)"
| "transfer_setup_loop (Suc idx) nxt pool =
     transfer_setup_loop idx (Some idx) (pool[idx := (pool ! idx)\<lparr>t_next := nxt\<rparr>])"

definition usb_transfer_setup :: "ctx \<Rightarrow> ctx" where
  "usb_transfer_setup c =
     (let (pool, nxt) = transfer_setup_loop USBDPI_MAX_TRANSFERS None (c_pool c)
      in c\<lparr>c_pool := pool, c_free := nxt\<rparr>)"

definition transfer_alloc :: "ctx \<Rightarrow> (nat option \<times> ctx) res" where
  "transfer_alloc c =
     (case c_free c of
        None \<Rightarrow> Inr (None, c)
      | Some i \<Rightarrow>
          bnd (arr_get (c_pool c) i) (\<lambda>t.
            Inr (Some i, c\<lparr>c_free := t_next t, c_pool := (c_pool c)[i := transfer_init t]\<rparr>)))"

definition transfer_release :: "ctx \<Rightarrow> nat option \<Rightarrow> ctx res" where
  "transfer_release c tr =
     bnd (upd_tr c tr (\<lambda>t. Inr (t\<lparr>t_next := c_free c\<rparr>))) (\<lambda>c. Inr (c\<lparr>c_free := tr\<rparr>))"

section \<open>Sending\<close>

definition transfer_send :: "ctx \<Rightarrow> nat option \<Rightarrow> ctx res" where
  "transfer_send c tr =
     bnd (get_tr c tr) (\<lambda>t.
     bnd (cassert ''num_bytes > 0U && num_bytes <= sizeof(data)''
            (t_num_bytes t > 0 \<and> unat (t_num_bytes t) \<le> USBDPI_MAX_DATA)) (\<lambda>_.
     bnd (cassert ''!sending || sending == transfer'' (c_sending c = None \<or> c_sending c = tr)) (\<lambda>_.
       Inr (c\<lparr>c_sending := tr, c_state := ST_SYNC, c_byte := 0, c_bit := 1\<rparr>))))"

definition transfer_status :: "ctx \<Rightarrow> nat option \<Rightarrow> u8 \<Rightarrow> ctx res" where
  "transfer_status c tr pid =
     bnd (upd_tr c tr (\<lambda>t. bnd (arr_set (t_data t) 0 pid) (\<lambda>d.
            Inr (t\<lparr>t_num_bytes := 1, t_data := d, t_data_start := USBDPI_NO_DATA_STAGE\<rparr>)))) (\<lambda>c.
     bnd (cassert ''!sending || sending == transfer'' (c_sending c = None \<or> c_sending c = tr)) (\<lambda>_.
       Inr (c\<lparr>c_sending := tr, c_state := ST_SYNC, c_byte := 0, c_bit := 1\<rparr>)))"

definition transfer_frame_start :: "ctx \<Rightarrow> nat option \<Rightarrow> u32 \<Rightarrow> ctx res" where
  "transfer_frame_start c tr frame =
     bnd (upd_tr c tr (\<lambda>t. transfer_token t USB_PID_SOF (to_u8 (frame AND 0x7f))
                             (to_u8 (drop_bit 7 frame AND 15)))) (\<lambda>c.
       transfer_send c tr)"

definition transfer_setup :: "ctx \<Rightarrow> nat option \<Rightarrow> u8 \<Rightarrow> u8 \<Rightarrow> u16 \<Rightarrow> u16 \<Rightarrow> u16 \<Rightarrow> ctx res" where
  "transfer_setup c tr bmRequestType bRequest wValue wIndex wLength =
     bnd (upd_tr c tr (\<lambda>t. transfer_token t USB_PID_SETUP (c_dev_address c) ENDPOINT_ZERO)) (\<lambda>c.
     bnd (upd_tr c tr (\<lambda>t. data_stage t USB_PID_DATA0 8
            [bmRequestType, bRequest, to_u8 wValue, to_u8 (drop_bit 8 wValue),
             to_u8 wIndex, to_u8 (drop_bit 8 wIndex), to_u8 wLength, to_u8 (drop_bit 8 wLength)])) (\<lambda>c.
     bnd (transfer_send c tr) (\<lambda>c.
       Inr (c\<lparr>c_bus_state := kUsbControlSetup,
              c_wait := c_tick_bits c + USBDPI_INTERVAL_SETUP_STAGE,
              c_hostSt := HS_WAITACK\<rparr>))))"

section \<open>Output drivers, bus reset, creation\<close>

definition set_driving :: "ctx \<Rightarrow> u32 \<Rightarrow> u32 \<Rightarrow> bool \<Rightarrow> u32" where
  "set_driving c d2p newval p2d_oe =
     (let driving = c_driving c AND P2D_SENSE;
          driving =
            (if has d2p D2P_DNPU then
               if has newval P2D_DP then driving OR (P2D_DN OR P2D_D)
               else if has newval P2D_DN then driving OR P2D_DP
               else driving
             else
               if has newval P2D_DP then driving OR (P2D_DP OR P2D_D)
               else if has newval P2D_DN then driving OR P2D_DN
               else driving)
      in if p2d_oe then driving OR P2D_OE else driving)"

definition inv_driving :: "ctx \<Rightarrow> u32 \<Rightarrow> u32" where
  "inv_driving c d2p = c_driving c XOR (P2D_DP OR P2D_DN OR P2D_D)"

definition bus_reset :: "ctx \<Rightarrow> ctx" where
  "bus_reset c =
     c\<lparr>c_ep_in := replicate USBDPI_MAX_ENDPOINTS USB_PID_DATA0,
       c_ep_out := replicate USBDPI_MAX_ENDPOINTS USB_PID_DATA0,
       c_baudrate_set_successfully := 0, c_state := ST_IDLE, c_step := STEP_BUS_RESET,
       c_hostSt := HS_NEXTFRAME, c_dev_address := 0, c_bus_state := kUsbIdle\<rparr>"

text \<open>The memory \<open>calloc\<close> returns: every field zero, every pointer \<open>NULL\<close>.\<close>

definition zero_ctx :: ctx where
  "zero_ctx = \<lparr>c_bus_state = kUsbIdle, c_driving = 0, c_linebits = 0, c_bit = 0, c_byte = 0,
     c_test_number = 0, c_test_arg = replicate 4 0, c_test_status = 0,
     c_ep_in = replicate USBDPI_MAX_ENDPOINTS 0, c_ep_out = replicate USBDPI_MAX_ENDPOINTS 0,
     c_nstreams = 0, c_stream_in = 0, c_stream_out = 0,
     c_stream = replicate USBDPI_MAX_STREAMS zero_stream, c_loglevel = 0, c_mon = None,
     c_hostSt = HS_STARTFRAME, c_recving = None, c_sending = None, c_last_pu = 0,
     c_lastrxpid = 0, c_tick = 0, c_tick_bits = 0, c_recovery_time = 0, c_step = 0,
     c_num_tries = 0, c_frame = 0, c_framepend = False, c_frame_start = 0, c_wait = 0,
     c_state = ST_IDLE, c_baudrate_set_successfully = 0, c_dev_address = 0,
     c_cfg_desc_len = 0, c_free = None, c_pool = replicate USBDPI_MAX_TRANSFERS zero_transfer\<rparr>"

text \<open>
  \<open>usbdpi_create\<close>: \<open>opened\<close> says whether the monitor's log file could be opened.  The
  path of that file is not part of the model.
\<close>

definition usbdpi_create :: "u32 \<Rightarrow> bool \<Rightarrow> ctx" where
  "usbdpi_create loglevel opened =
     (let c = bus_reset zero_ctx;
          c = c\<lparr>c_loglevel := loglevel\<rparr>;
          c = c\<lparr>c_mon := usb_monitor_init opened\<rparr>
      in usb_transfer_setup c)"

end
