(* ===== verification/Streams.thy ===== *)
theory Streams
  imports Dpi_Context
begin

text \<open>
  The byte streams of \<open>usbdpi_stream.c\<close>: the host polls the device for IN packets that
  carry an LFSR-generated byte stream, checks them, combines them with an LFSR stream of
  its own and sends them back.  \<open>streams_service\<close> is split into one definition per case of
  its \<open>switch\<close> on the host state.  A stream is named by its index in the context.
  Console output is not modelled.
\<close>

section \<open>The LFSR\<close>

definition LFSR_ADVANCE :: "u8 \<Rightarrow> u8" where
  "LFSR_ADVANCE lfsr =
     push_bit 1 lfsr XOR
     ((drop_bit 1 lfsr XOR drop_bit 2 lfsr XOR drop_bit 3 lfsr XOR drop_bit 7 lfsr) AND 1)"

definition USBTST_LFSR_SEED :: "u32 \<Rightarrow> u8" where
  "USBTST_LFSR_SEED s = to_u8 (0x10 + s * 7)"

definition USBDPI_LFSR_SEED :: "u32 \<Rightarrow> u8" where
  "USBDPI_LFSR_SEED s = to_u8 (0x9B - s * 7)"

definition RETRY_LFSR_SEED :: "u32 \<Rightarrow> u8" where
  "RETRY_LFSR_SEED s = to_u8 (0x24 + s * 7)"

text \<open>The first \<open>n\<close> bytes an LFSR emits from state \<open>l\<close>, and the state after them.\<close>

fun lfsr_bytes :: "nat \<Rightarrow> u8 \<Rightarrow> u8 list" where
  "lfsr_bytes 0 l = []"
| "lfsr_bytes (Suc n) l = l # lfsr_bytes n (LFSR_ADVANCE l)"

lemma length_lfsr_bytes [simp]: "length (lfsr_bytes n l) = n"
  by (induction n arbitrary: l) simp_all

fun lfsr_after :: "nat \<Rightarrow> u8 \<Rightarrow> u8" where
  "lfsr_after 0 l = l"
| "lfsr_after (Suc n) l = lfsr_after n (LFSR_ADVANCE l)"

definition STREAM_SIGNATURE_HEAD :: u32 where [simp]: "STREAM_SIGNATURE_HEAD = 0x579EA01A"
definition STREAM_SIGNATURE_TAIL :: u32 where [simp]: "STREAM_SIGNATURE_TAIL = 0x160AE975"
definition SIZEOF_STREAM_SIGNATURE :: nat where [simp]: "SIZEOF_STREAM_SIGNATURE = 0x10"

section \<open>Arbitration and set-up\<close>

definition in_stream_next :: "ctx \<Rightarrow> nat \<times> ctx" where
  "in_stream_next c =
     (let id = c_stream_in c + 1; id = (if id \<ge> c_nstreams c then 0 else id)
      in (unat id, c\<lparr>c_stream_in := id\<rparr>))"

definition out_stream_next :: "ctx \<Rightarrow> nat \<times> ctx" where
  "out_stream_next c =
     (let id = c_stream_out c + 1; id = (if id \<ge> c_nstreams c then 0 else id)
      in (unat id, c\<lparr>c_stream_out := id\<rparr>))"

definition stream_start :: "u32 \<Rightarrow> u8 \<Rightarrow> bool \<Rightarrow> bool \<Rightarrow> bool \<Rightarrow> bool \<Rightarrow> stream" where
  "stream_start sid xfr_type retrieve checking retrying send =
     \<lparr>s_id = to_u8 sid, s_retrieve = retrieve, s_send = send, s_retrying = retrying,
      s_checking = checking, s_sig_expected = True, s_xfr_type = xfr_type,
      s_ep_in = to_u8 (1 + sid), s_ep_out = to_u8 (1 + sid), s_tst_seq = 0,
      s_tst_lfsr = USBTST_LFSR_SEED sid, s_dpi_lfsr = USBDPI_LFSR_SEED sid,
      s_retry_lfsr = RETRY_LFSR_SEED sid, s_nretries = 0,
      s_dpi_rewind_lfsr = USBDPI_LFSR_SEED sid, s_received = None\<rparr>"

text \<open>The loop over the streams, from \<open>sid\<close> up to \<open>sid + n\<close>.\<close>

fun streams_init_loop ::
  "nat \<Rightarrow> nat \<Rightarrow> u8 list \<Rightarrow> bool \<Rightarrow> bool \<Rightarrow> bool \<Rightarrow> bool \<Rightarrow> stream list \<Rightarrow> stream list res" where
  "streams_init_loop 0 sid xfr_types retrieve checking retrying send ss = Inr ss"
| "streams_init_loop (Suc n) sid xfr_types retrieve checking retrying send ss =
     bnd (arr_get xfr_types sid) (\<lambda>xfr_type.
     bnd (arr_set ss sid (stream_start (of_nat sid) xfr_type retrieve checking retrying send)) (\<lambda>ss.
       streams_init_loop n (Suc sid) xfr_types retrieve checking retrying send ss))"

definition streams_init ::
  "ctx \<Rightarrow> u32 \<Rightarrow> u8 list \<Rightarrow> bool \<Rightarrow> bool \<Rightarrow> bool \<Rightarrow> bool \<Rightarrow> (bool \<times> ctx) res" where
  "streams_init c nstreams xfr_types retrieve checking retrying send =
     (if nstreams = 0 \<or> unat nstreams > USBDPI_MAX_STREAMS then Inr (False, c)
      else
        let c = c\<lparr>c_nstreams := to_u8 nstreams, c_stream_in := 0,
                   c_stream_out := to_u8 (nstreams - 1)\<rparr> in
        bnd (streams_init_loop (unat nstreams) 0 xfr_types retrieve checking retrying send (c_stream c))
          (\<lambda>ss. Inr (True, c\<lparr>c_stream := ss\<rparr>)))"

section \<open>Checking, generating and processing data packets\<close>

text \<open>The comparison loop: \<open>n\<close> bytes from position \<open>i\<close>; the results are the LFSR and \<open>ok\<close>.\<close>

fun stream_check_loop :: "nat \<Rightarrow> u8 list \<Rightarrow> nat \<Rightarrow> u8 \<Rightarrow> bool \<Rightarrow> (u8 \<times> bool) res" where
  "stream_check_loop 0 data i tst_lfsr ok = Inr (tst_lfsr, ok)"
| "stream_check_loop (Suc n) data i tst_lfsr ok =
     bnd (arr_get data i) (\<lambda>recvd.
       stream_check_loop n data (i + 1) (LFSR_ADVANCE tst_lfsr)
         (if recvd \<noteq> tst_lfsr then False else ok))"

definition stream_data_check ::
  "ctx \<Rightarrow> nat \<Rightarrow> nat option \<Rightarrow> u32 \<Rightarrow> bool \<Rightarrow> (bool \<times> ctx) res" where
  "stream_data_check c sid rx offset accept =
     bnd (cassert ''rx'' (rx \<noteq> None)) (\<lambda>_.
     bnd (get_tr c rx) (\<lambda>t.
     bnd (arr_get (c_stream c) sid) (\<lambda>s.
     let num_bytes = transfer_length t;
         idx = to_u32 (t_data_start t) + 1 in
     if unat num_bytes \<ge> USBDPI_MAX_DATA \<or> idx + 1 + offset > num_bytes then Inr (False, c)
     else
       let num_bytes = num_bytes - 3; sp = unat idx in
       bnd (arr_get (t_data t) (sp + unat num_bytes)) (\<lambda>lo.
       bnd (arr_get (t_data t) (sp + unat (num_bytes + 1))) (\<lambda>hi.
       let rx_crc = to_u16 (to_u32 lo OR push_bit 8 (to_u32 hi)) in
       bnd (CRC16 (drop sp (t_data t)) (sint num_bytes)) (\<lambda>crc.
       if rx_crc \<noteq> to_u16 crc then Inr (False, c)
       else
         bnd (arr_get (c_ep_in c) (unat (s_ep_in s))) (\<lambda>pid.
         bnd (arr_get (t_data t) 0) (\<lambda>d0.
         let (ok, c) =
               (if d0 = pid
                then (accept,
                      if accept
                      then c\<lparr>c_ep_in := (c_ep_in c)[unat (s_ep_in s) := DATA_TOGGLE_ADVANCE pid]\<rparr>
                      else c)
                else (False, c)) in
         if s_checking s then
           bnd (stream_check_loop (unat (num_bytes - offset)) (t_data t) (sp + unat offset)
                  (s_tst_lfsr s) ok) (\<lambda>(tst_lfsr, ok).
             Inr (ok, if accept \<and> ok then upd_stream c sid (\<lambda>s. s\<lparr>s_tst_lfsr := tst_lfsr\<rparr>) else c))
         else Inr (ok, c)))))))))"

definition stream_data_gen :: "ctx \<Rightarrow> nat \<Rightarrow> u32 \<Rightarrow> (nat option \<times> ctx) res" where
  "stream_data_gen c sid len =
     bnd (transfer_alloc c) (\<lambda>(tr, c).
     if tr = None then Inr (None, c)
     else
       bnd (arr_get (c_stream c) sid) (\<lambda>s.
       bnd (arr_get (c_ep_in c) (unat (s_ep_in s))) (\<lambda>data.
       let c = c\<lparr>c_ep_in := (c_ep_in c)[unat (s_ep_in s) := DATA_TOGGLE_ADVANCE data]\<rparr> in
       bnd (upd_tr c tr (\<lambda>t. data_stage t data len (lfsr_bytes (unat len) (s_tst_lfsr s)))) (\<lambda>c.
         Inr (tr, upd_stream c sid (\<lambda>s. s\<lparr>s_tst_lfsr := lfsr_after (unat len) (s_tst_lfsr s)\<rparr>))))))"

text \<open>
  The loop of \<open>stream_data_process\<close>: \<open>n\<close> bytes from position \<open>i\<close> of \<open>src\<close>, combined with the
  LFSR, to position \<open>j\<close> of \<open>dst\<close>; the results are \<open>dst\<close>, the final position and the LFSR.
\<close>

fun stream_xor_loop ::
  "nat \<Rightarrow> u8 list \<Rightarrow> nat \<Rightarrow> u8 list \<Rightarrow> nat \<Rightarrow> u8 \<Rightarrow> (u8 list \<times> nat \<times> u8) res" where
  "stream_xor_loop 0 src i dst j lfsr = Inr (dst, j, lfsr)"
| "stream_xor_loop (Suc n) src i dst j lfsr =
     bnd (arr_get src i) (\<lambda>recvd.
     bnd (arr_set dst j (recvd XOR lfsr)) (\<lambda>dst.
       stream_xor_loop n src (i + 1) dst (j + 1) (LFSR_ADVANCE lfsr)))"

text \<open>
  The body of the reply, from the call of \<open>transfer_data_start\<close> on: \<open>src\<close> is the received
  packet's buffer and \<open>sp\<close> the position of its data field.  The results are the reply and
  the advanced LFSR.
\<close>

definition stream_reply ::
  "stream \<Rightarrow> u8 \<Rightarrow> u32 \<Rightarrow> u8 list \<Rightarrow> nat \<Rightarrow> transfer \<Rightarrow> (transfer \<times> u8) res" where
  "stream_reply s pid num_bytes src sp t =
     bnd (transfer_data_start t pid num_bytes) (\<lambda>(t, dp).
     bnd (cassert ''dp'' (dp \<noteq> None)) (\<lambda>_.
     bnd (nonnull dp) (\<lambda>dp.
     bnd (if s_xfr_type s = USB_TRANSFER_TYPE_ISOCHRONOUS then
            bnd (cassert ''num_bytes >= SIZEOF_STREAM_SIGNATURE''
                   (unat num_bytes \<ge> SIZEOF_STREAM_SIGNATURE)) (\<lambda>_.
            bnd (arr_read src sp SIZEOF_STREAM_SIGNATURE) (\<lambda>sig.
            bnd (arr_write (t_data t) dp sig) (\<lambda>d.
            bnd (arr_set d (dp + 4) (s_dpi_lfsr s)) (\<lambda>d.
              Inr (d, dp + SIZEOF_STREAM_SIGNATURE, sp + SIZEOF_STREAM_SIGNATURE,
                   num_bytes - of_nat SIZEOF_STREAM_SIGNATURE)))))
          else Inr (t_data t, dp, sp, num_bytes)) (\<lambda>(d, dp, sp, num_bytes).
     bnd (stream_xor_loop (unat num_bytes) src sp d dp (s_dpi_lfsr s)) (\<lambda>(d, dp, lfsr).
     bnd (transfer_data_end (t\<lparr>t_data := d\<rparr>) dp) (\<lambda>t. Inr (t, lfsr)))))))"

definition stream_data_process :: "ctx \<Rightarrow> nat \<Rightarrow> nat option \<Rightarrow> (nat option \<times> ctx) res" where
  "stream_data_process c sid rx =
     bnd (cassert ''rx'' (rx \<noteq> None)) (\<lambda>_.
     bnd (get_tr c rx) (\<lambda>t.
     let num_bytes = transfer_length t - 3 in
     case transfer_data_field t of
       None \<Rightarrow> Inr (None, c)
     | Some sp \<Rightarrow>
         bnd (transfer_alloc c) (\<lambda>(reply, c).
         bnd (cassert ''reply'' (reply \<noteq> None)) (\<lambda>_.
         bnd (arr_get (c_stream c) sid) (\<lambda>s.
         bnd (upd_tr c reply (\<lambda>r. transfer_token r USB_PID_OUT (c_dev_address c) (s_ep_out s))) (\<lambda>c.
         bnd (arr_get (c_ep_out c) (unat (s_ep_out s))) (\<lambda>pid.
         bnd (get_tr c rx) (\<lambda>t.
         bnd (get_tr c reply) (\<lambda>r.
         bnd (stream_reply s pid num_bytes (t_data t) sp r) (\<lambda>(r, lfsr).
         bnd (upd_tr c reply (\<lambda>_. Inr r)) (\<lambda>c.
           Inr (reply, upd_stream c sid (\<lambda>s. s\<lparr>s_dpi_rewind_lfsr := s_dpi_lfsr s,
                                                  s_dpi_lfsr := lfsr\<rparr>)))))))))))))"

section \<open>The stream signature\<close>

text \<open>
  \<open>stream_sig_check\<close>.  \<open>sig\<close> is read in place: \<open>d\<close> is the buffer from the data field on.
  The result says whether the signature was accepted.
\<close>

definition stream_sig_check :: "ctx \<Rightarrow> nat \<Rightarrow> nat option \<Rightarrow> (bool \<times> ctx) res" where
  "stream_sig_check c sid rx =
     bnd (get_tr c rx) (\<lambda>t.
     bnd (arr_get (c_stream c) sid) (\<lambda>s.
     let min_len = 3 + 0x10; len = unat (transfer_length t);
         ok = (len = min_len);
         ok = (if s_xfr_type s = USB_TRANSFER_TYPE_ISOCHRONOUS then len \<ge> min_len else ok) in
     if ok then
       case transfer_data_field t of
         None \<Rightarrow> Inr (False, c)
       | Some sp \<Rightarrow>
           let d = drop sp (t_data t) in
           bnd (get_le32 (drop 8 d)) (\<lambda>num_bytes.
           bnd (get_le32 d) (\<lambda>head.
           bnd (if head = STREAM_SIGNATURE_HEAD
                then bnd (get_le32 (drop 12 d)) (\<lambda>tail.
                       Inr (tail = STREAM_SIGNATURE_TAIL \<and> num_bytes > 0 \<and> num_bytes < 0x10000000))
                else Inr False) (\<lambda>valid.
           if valid then
             bnd (get_le16 (drop 6 d)) (\<lambda>seq.
             if s_xfr_type s = USB_TRANSFER_TYPE_ISOCHRONOUS then
               if seq < s_tst_seq s then Inr (False, c)
               else
                 bnd (arr_get d 4) (\<lambda>lfsr.
                 bnd (arr_set (c_ep_in c) (unat (s_ep_in s)) USB_PID_DATA0) (\<lambda>ep.
                   Inr (True, upd_stream (c\<lparr>c_ep_in := ep\<rparr>) sid
                                (\<lambda>s. s\<lparr>s_tst_seq := seq + 1, s_tst_lfsr := lfsr\<rparr>))))
             else if seq \<noteq> s_tst_seq s then Inr (False, c)
             else
               bnd (arr_get d 4) (\<lambda>lfsr.
               bnd (transfer_data_pid t) (\<lambda>pid.
               bnd (arr_set (c_ep_in c) (unat (s_ep_in s)) (DATA_TOGGLE_ADVANCE pid)) (\<lambda>ep.
                 Inr (True, upd_stream (c\<lparr>c_ep_in := ep\<rparr>) sid
                              (\<lambda>s. s\<lparr>s_tst_seq := s_tst_seq s + 1, s_tst_lfsr := lfsr\<rparr>))))))
           else Inr (False, c))))
     else Inr (False, c)))"

section \<open>Servicing the streams\<close>

definition MIN_TIME_LEFT :: u32 where [simp]: "MIN_TIME_LEFT = 800"

definition enough_time :: "ctx \<Rightarrow> bool" where
  "enough_time c \<longleftrightarrow> c_frame_start c + FRAME_INTERVAL - c_tick_bits c > MIN_TIME_LEFT"

text \<open>Releasing the descriptor that has been sent, where there is one.\<close>

definition release_sending :: "ctx \<Rightarrow> ctx res" where
  "release_sending c =
     (if c_sending c \<noteq> None
      then bnd (transfer_release c (c_sending c)) (\<lambda>c. Inr (c\<lparr>c_sending := None\<rparr>))
      else Inr c)"

text \<open>The loop that discards a stream's received packets; \<open>n\<close> bounds the rounds.\<close>

fun discard_received :: "nat \<Rightarrow> ctx \<Rightarrow> nat \<Rightarrow> ctx res" where
  "discard_received n c sid =
     bnd (arr_get (c_stream c) sid) (\<lambda>s.
     case s_received s of
       None \<Rightarrow> Inr c
     | Some i \<Rightarrow>
         (case n of
            0 \<Rightarrow> Inl OutOfFuel
          | Suc n \<Rightarrow>
              bnd (get_tr c (Some i)) (\<lambda>t.
              bnd (transfer_release (upd_stream c sid (\<lambda>s. s\<lparr>s_received := t_next t\<rparr>)) (Some i)) (\<lambda>c.
                discard_received n c sid))))"

definition out_bus_state :: "u8 \<Rightarrow> bus_state res" where
  "out_bus_state xfr_type =
     (if xfr_type = USB_TRANSFER_TYPE_INTERRUPT then Inr kUsbInterruptOut
      else if xfr_type = USB_TRANSFER_TYPE_BULK then Inr kUsbBulkOut
      else bnd (cassert ''xfr_type == ISOCHRONOUS'' (xfr_type = USB_TRANSFER_TYPE_ISOCHRONOUS))
             (\<lambda>_. Inr kUsbIsoOut))"

definition in_bus_state :: "u8 \<Rightarrow> bus_state res" where
  "in_bus_state xfr_type =
     (if xfr_type = USB_TRANSFER_TYPE_INTERRUPT then Inr kUsbInterruptInToken
      else if xfr_type = USB_TRANSFER_TYPE_BULK then Inr kUsbBulkInToken
      else bnd (cassert ''xfr_type == ISOCHRONOUS'' (xfr_type = USB_TRANSFER_TYPE_ISOCHRONOUS))
             (\<lambda>_. Inr kUsbIsoInToken))"

text \<open>\<open>HS_STARTFRAME\<close> and \<open>HS_STREAMOUT\<close>: try to transmit a data packet.\<close>

definition streams_out :: "ctx \<Rightarrow> ctx res" where
  "streams_out c =
     (if enough_time c then
        let (sid, c) = out_stream_next c in
        bnd (arr_get (c_stream c) sid) (\<lambda>s.
        let c = c\<lparr>c_hostSt := HS_STREAMIN\<rparr> in
        if s_send s then
          if s_received s \<noteq> None then
            bnd (release_sending c) (\<lambda>c.
            bnd (stream_data_process c sid (s_received s)) (\<lambda>(reply, c).
            if reply = None then Inr c
            else
              bnd (out_bus_state (s_xfr_type s)) (\<lambda>bs.
              bnd (get_tr c reply) (\<lambda>t.
              bnd (transfer_send (c\<lparr>c_bus_state := bs\<rparr>) reply) (\<lambda>c.
                Inr (c\<lparr>c_wait := c_tick_bits c + (transfer_length t * 10 + 160),
                       c_lastrxpid := 0, c_hostSt := HS_WAITACK\<rparr>))))))
          else Inr c
        else discard_received USBDPI_MAX_TRANSFERS c sid)
      else Inr (c\<lparr>c_hostSt := HS_NEXTFRAME\<rparr>))"

text \<open>\<open>HS_WAITACK\<close>: was the packet accepted?\<close>

definition streams_acked :: "ctx \<Rightarrow> nat \<Rightarrow> stream \<Rightarrow> (bool \<times> ctx) res" where
  "streams_acked c sid s =
     (if s_xfr_type s = USB_TRANSFER_TYPE_BULK \<or> s_xfr_type s = USB_TRANSFER_TYPE_INTERRUPT then
        let bulk = (s_xfr_type s = USB_TRANSFER_TYPE_BULK) in
        if c_bus_state c = (if bulk then kUsbBulkOutAck else kUsbInterruptOutAck) then
          if c_lastrxpid c = USB_PID_ACK then Inr (True, c)
          else if c_lastrxpid c = USB_PID_NAK then
            Inr (False, (upd_stream c sid (\<lambda>s. s\<lparr>s_dpi_lfsr := s_dpi_rewind_lfsr s\<rparr>))
                          \<lparr>c_hostSt := HS_STREAMIN\<rparr>)
          else Inr (False, c\<lparr>c_hostSt := HS_ERROR\<rparr>)
        else if c_tick_bits c \<ge> c_wait c then Inr (False, c\<lparr>c_hostSt := HS_ERROR\<rparr>)
        else Inr (False, c)
      else
        bnd (cassert ''xfr_type == ISOCHRONOUS'' (s_xfr_type s = USB_TRANSFER_TYPE_ISOCHRONOUS)) (\<lambda>_.
        if c_bus_state c = kUsbIsoOut then Inr (True, c)
        else Inr (False, c\<lparr>c_hostSt := HS_ERROR\<rparr>)))"

text \<open>The packet was accepted: it leaves the stream's queue.\<close>

definition streams_retire :: "ctx \<Rightarrow> nat \<Rightarrow> ctx res" where
  "streams_retire c sid =
     bnd (arr_get (c_stream c) sid) (\<lambda>s.
     let rx = s_received s in
     bnd (cassert ''rx'' (rx \<noteq> None)) (\<lambda>_.
     bnd (get_tr c rx) (\<lambda>t.
     bnd (transfer_release (upd_stream c sid (\<lambda>s. s\<lparr>s_received := t_next t\<rparr>)) rx) (\<lambda>c.
     bnd (if s_xfr_type s \<noteq> USB_TRANSFER_TYPE_ISOCHRONOUS
          then bnd (arr_get (c_ep_out c) (unat (s_ep_out s))) (\<lambda>pid.
                 Inr (c\<lparr>c_ep_out := (c_ep_out c)[unat (s_ep_out s) := DATA_TOGGLE_ADVANCE pid]\<rparr>))
          else Inr c) (\<lambda>c.
       Inr (c\<lparr>c_hostSt := HS_STREAMIN\<rparr>))))))"

definition streams_waitack :: "ctx \<Rightarrow> ctx res" where
  "streams_waitack c =
     (let sid = unat (c_stream_out c) in
      bnd (arr_get (c_stream c) sid) (\<lambda>s.
      bnd (release_sending c) (\<lambda>c.
      bnd (streams_acked c sid s) (\<lambda>(accepted, c).
        if accepted then streams_retire c sid else Inr c))))"

text \<open>Make sure that a descriptor is available to send from.\<close>

definition ensure_sending :: "ctx \<Rightarrow> ctx res" where
  "ensure_sending c =
     (if c_sending c = None
      then bnd (transfer_alloc c) (\<lambda>(tr, c).
             bnd (cassert ''tr'' (tr \<noteq> None)) (\<lambda>_. Inr (c\<lparr>c_sending := tr\<rparr>)))
      else Inr c)"

text \<open>\<open>HS_STREAMIN\<close>: poll the next stream's endpoint for a data packet.\<close>

definition streams_in :: "ctx \<Rightarrow> ctx res" where
  "streams_in c =
     (if enough_time c then
        let (sid, c) = in_stream_next c in
        bnd (arr_get (c_stream c) sid) (\<lambda>s.
        if s_retrieve s then
          bnd (ensure_sending c) (\<lambda>c.
          let tr = c_sending c in
          bnd (upd_tr c tr (\<lambda>t. transfer_token t USB_PID_IN (c_dev_address c) (s_ep_in s))) (\<lambda>c.
          bnd (transfer_send c tr) (\<lambda>c.
          bnd (in_bus_state (s_xfr_type s)) (\<lambda>bs.
            Inr (c\<lparr>c_bus_state := bs, c_hostSt := HS_WAIT_PKT, c_lastrxpid := 0\<rparr>)))))
        else
          bnd (if s_send s \<and> s_received s = None
               then bnd (stream_data_gen c sid (of_nat USBDEV_MAX_PACKET_SIZE)) (\<lambda>(tr, c).
                      Inr (upd_stream c sid (\<lambda>s. s\<lparr>s_received := tr\<rparr>)))
               else Inr c) (\<lambda>c.
            Inr (c\<lparr>c_hostSt := HS_STREAMOUT\<rparr>)))
      else Inr (c\<lparr>c_hostSt := HS_NEXTFRAME\<rparr>))"

text \<open>\<open>HS_ACKIFDATA\<close>: has the reply that the stream's transfer type calls for arrived?\<close>

definition streams_got_reply :: "ctx \<Rightarrow> stream \<Rightarrow> (bool \<times> ctx) res" where
  "streams_got_reply c s =
     (if s_xfr_type s = USB_TRANSFER_TYPE_BULK then
        Inr (c_recving c \<noteq> None \<and> c_bus_state c = kUsbBulkInData, c)
      else if s_xfr_type s = USB_TRANSFER_TYPE_INTERRUPT then
        Inr (c_recving c \<noteq> None \<and> c_bus_state c = kUsbInterruptInData, c)
      else if s_xfr_type s = USB_TRANSFER_TYPE_ISOCHRONOUS then
        Inr (c_recving c \<noteq> None \<and> c_bus_state c = kUsbIsoInData, c)
      else
        bnd (cassert ''xfr_type == CONTROL'' (s_xfr_type s = USB_TRANSFER_TYPE_CONTROL)) (\<lambda>_.
          Inr (False, c\<lparr>c_hostSt := HS_ERROR\<rparr>)))"

definition retry_count :: "u8 \<Rightarrow> u8" where
  "retry_count lfsr =
     (if lfsr AND 7 = 7 then 3
      else if lfsr AND 7 = 6 \<or> lfsr AND 7 = 5 then 2
      else if lfsr AND 7 = 4 then 1
      else 0)"

definition ctx_log :: "ctx \<Rightarrow> string \<Rightarrow> ctx res" where
  "ctx_log c msg =
     bnd (nonnull (c_mon c)) (\<lambda>mon. bnd (usb_monitor_log mon msg) (\<lambda>mon. Inr (c\<lparr>c_mon := Some mon\<rparr>)))"

text \<open>The decision whether the packet \<open>t\<close> is to be acknowledged or its resending requested.\<close>

definition streams_decide :: "ctx \<Rightarrow> nat \<Rightarrow> stream \<Rightarrow> transfer \<Rightarrow> (bool \<times> ctx) res" where
  "streams_decide c sid s t =
     (if s_xfr_type s = USB_TRANSFER_TYPE_ISOCHRONOUS then Inr (transfer_length t > 3, c)
      else if s_retrying s \<and> s_nretries s \<noteq> 0 then
        bnd (ctx_log (upd_stream c sid (\<lambda>s. s\<lparr>s_nretries := s_nretries s - 1\<rparr>))
               (''[usbdpi] Requesting resend of data'' @ nl)) (\<lambda>c. Inr (False, c))
      else
        Inr (True, upd_stream c sid (\<lambda>s. s\<lparr>s_nretries := retry_count (s_retry_lfsr s),
                                            s_retry_lfsr := LFSR_ADVANCE (s_retry_lfsr s)\<rparr>)))"

text \<open>
  The checks of a packet that is to be accepted: the signature, where one is expected, and
  then the rest of the packet.  The results are the packet, unless it was a signature and
  has been released, and whether it is still accepted.
\<close>

definition streams_check_sig :: "ctx \<Rightarrow> nat \<Rightarrow> nat option \<Rightarrow> (nat option \<times> u32 \<times> bool \<times> ctx) res" where
  "streams_check_sig c sid rx =
     bnd (arr_get (c_stream c) sid) (\<lambda>s.
     if s_sig_expected s then
       bnd (stream_sig_check c sid rx) (\<lambda>(accept, c).
       if accept then
         if s_xfr_type s \<noteq> USB_TRANSFER_TYPE_ISOCHRONOUS
         then bnd (transfer_release c rx) (\<lambda>c. Inr (None, of_nat SIZEOF_STREAM_SIGNATURE, True, c))
         else Inr (rx, of_nat SIZEOF_STREAM_SIGNATURE, True, c)
       else Inr (rx, 0, False, c))
     else Inr (rx, 0, True, c))"

definition streams_check_rest ::
  "ctx \<Rightarrow> nat \<Rightarrow> nat option \<Rightarrow> u32 \<Rightarrow> bool \<Rightarrow> (nat option \<times> bool \<times> ctx) res" where
  "streams_check_rest c sid rx offset accept =
     (if rx = None then Inr (rx, accept, c)
      else
        bnd (get_tr c rx) (\<lambda>t.
        if offset < transfer_length t then
          bnd (stream_data_check c sid rx offset accept) (\<lambda>(ok, c). Inr (rx, accept \<and> ok, c))
        else Inr (rx, accept, c)))"

definition streams_check :: "ctx \<Rightarrow> nat \<Rightarrow> nat option \<Rightarrow> (nat option \<times> bool \<times> ctx) res" where
  "streams_check c sid rx =
     bnd (streams_check_sig c sid rx) (\<lambda>(rx, offset, accept, c).
       streams_check_rest c sid rx offset accept)"

text \<open>The walk to the last packet of a queue; \<open>n\<close> bounds the rounds.\<close>

fun queue_last :: "nat \<Rightarrow> ctx \<Rightarrow> nat \<Rightarrow> nat res" where
  "queue_last n c i =
     bnd (get_tr c (Some i)) (\<lambda>t.
     case t_next t of
       None \<Rightarrow> Inr i
     | Some j \<Rightarrow> (case n of 0 \<Rightarrow> Inl OutOfFuel | Suc n \<Rightarrow> queue_last n c j))"

definition queue_append :: "ctx \<Rightarrow> nat \<Rightarrow> nat option \<Rightarrow> ctx res" where
  "queue_append c sid rx =
     bnd (arr_get (c_stream c) sid) (\<lambda>s.
     case s_received s of
       None \<Rightarrow> Inr (upd_stream c sid (\<lambda>s. s\<lparr>s_received := rx\<rparr>))
     | Some i \<Rightarrow>
         bnd (queue_last USBDPI_MAX_TRANSFERS c i) (\<lambda>j.
           upd_tr c (Some j) (\<lambda>t. Inr (t\<lparr>t_next := rx\<rparr>))))"

text \<open>A packet that has been checked is queued or discarded, and then acknowledged.\<close>

definition streams_store :: "ctx \<Rightarrow> nat \<Rightarrow> nat option \<Rightarrow> bool \<Rightarrow> ctx res" where
  "streams_store c sid rx accept =
     (if rx \<noteq> None
      then if accept then queue_append c sid rx else transfer_release c rx
      else Inr c)"

definition streams_respond :: "ctx \<Rightarrow> nat \<Rightarrow> stream \<Rightarrow> bool \<Rightarrow> ctx res" where
  "streams_respond c sid s accept =
     (if s_xfr_type s \<noteq> USB_TRANSFER_TYPE_ISOCHRONOUS then
        let tr = c_sending c in
        bnd (cassert ''tr'' (tr \<noteq> None)) (\<lambda>_.
        bnd (transfer_status c tr (if accept then USB_PID_ACK else USB_PID_NAK)) (\<lambda>c.
          Inr (if accept then upd_stream c sid (\<lambda>s. s\<lparr>s_sig_expected := False\<rparr>) else c)))
      else Inr c)"

text \<open>A DATA0 or DATA1 packet has been received.\<close>

definition streams_data :: "ctx \<Rightarrow> nat \<Rightarrow> stream \<Rightarrow> ctx res" where
  "streams_data c sid s =
     (let rx = c_recving c in
      bnd (cassert ''rx'' (rx \<noteq> None)) (\<lambda>_.
      bnd (get_tr c rx) (\<lambda>t.
      bnd (streams_decide (c\<lparr>c_recving := None\<rparr>) sid s t) (\<lambda>(accept, c).
      bnd (if accept then streams_check c sid rx else Inr (rx, accept, c)) (\<lambda>(rx, accept, c).
      bnd (streams_store c sid rx accept) (\<lambda>c.
      bnd (streams_respond c sid s accept) (\<lambda>c.
        Inr (c\<lparr>c_hostSt := HS_STREAMOUT\<rparr>))))))))"

definition streams_ackifdata :: "ctx \<Rightarrow> ctx res" where
  "streams_ackifdata c =
     (let sid = unat (c_stream_in c) in
      bnd (arr_get (c_stream c) sid) (\<lambda>s.
      bnd (streams_got_reply c s) (\<lambda>(got_reply, c).
      if got_reply then
        if c_lastrxpid c = USB_PID_DATA0 \<or> c_lastrxpid c = USB_PID_DATA1 then streams_data c sid s
        else if c_lastrxpid c = USB_PID_NAK then
          Inr (c\<lparr>c_hostSt := (if s_xfr_type s = USB_TRANSFER_TYPE_ISOCHRONOUS then HS_ERROR
                               else HS_STREAMOUT)\<rparr>)
        else Inr (c\<lparr>c_hostSt := HS_NEXTFRAME\<rparr>)
      else if c_tick_bits c \<ge> c_wait c then Inr (c\<lparr>c_hostSt := HS_ERROR\<rparr>)
      else Inr c)))"

definition streams_service :: "ctx \<Rightarrow> ctx res" where
  "streams_service c =
     (case c_hostSt c of
        HS_STARTFRAME \<Rightarrow> streams_out c
      | HS_STREAMOUT \<Rightarrow> streams_out c
      | HS_WAITACK \<Rightarrow> streams_waitack c
      | HS_STREAMIN \<Rightarrow> streams_in c
      | HS_WAIT_PKT \<Rightarrow>
          Inr (c\<lparr>c_wait := c_tick_bits c + 18 + 8 + 8 + 64 * 8 + 16, c_hostSt := HS_ACKIFDATA\<rparr>)
      | HS_ACKIFDATA \<Rightarrow> streams_ackifdata c
      | HS_ERROR \<Rightarrow>
          bnd (cassert ''Unexpected behavior in streaming test'' False) (\<lambda>_.
            Inr (c\<lparr>c_hostSt := HS_NEXTFRAME\<rparr>))
      | _ \<Rightarrow>
          bnd (cassert ''hostSt == HS_NEXTFRAME'' (c_hostSt c = HS_NEXTFRAME)) (\<lambda>_.
            Inr (c\<lparr>c_hostSt := HS_NEXTFRAME\<rparr>)))"

end
