(* ===== verification/Test_Seq.thy ===== *)
theory Test_Seq
  imports Streams
begin

text \<open>
  The choice and sequencing of the tests, \<open>usbdpi_test.c\<close>: the initialisation for the test
  that the device asked for, and the step that follows a step of the test sequence.
\<close>

section \<open>Initialisation\<close>

text \<open>The transfer types of a mixed test: two bits per stream, the lowest stream first.\<close>

fun mixed_types_loop :: "nat \<Rightarrow> u32 \<Rightarrow> u8 list res" where
  "mixed_types_loop 0 mixed_types = Inr []"
| "mixed_types_loop (Suc n) mixed_types =
     (let t = to_u8 (mixed_types AND 3) in
      bnd (cassert ''xfr_types[id] != USB_TRANSFER_TYPE_CONTROL'' (t \<noteq> USB_TRANSFER_TYPE_CONTROL)) (\<lambda>_.
      bnd (mixed_types_loop n (drop_bit 2 mixed_types)) (\<lambda>ts. Inr (t # ts))))"

definition usbdpi_test_init :: "ctx \<Rightarrow> ctx res" where
  "usbdpi_test_init c =
     bnd (if c_test_number c = kUsbTestNumberSmoke then Inr (True, c)
          else if c_test_number c = kUsbTestNumberMixed \<or> c_test_number c = kUsbTestNumberIso
                  \<or> c_test_number c = kUsbTestNumberStreams then
            bnd (arr_get (c_test_arg c) 0) (\<lambda>a0.
            let nstreams = to_u32 (a0 AND 0xf);
                retrieve = has a0 0x10; checking = has a0 0x20;
                retrying = has a0 0x40; send = has a0 0x80;
                iso = (c_test_number c = kUsbTestNumberIso) in
            if unat nstreams \<le> USBDPI_MAX_STREAMS then
              bnd (if c_test_number c = kUsbTestNumberMixed then
                     bnd (arr_get (c_test_arg c) 3) (\<lambda>a3.
                     bnd (arr_get (c_test_arg c) 2) (\<lambda>a2.
                     bnd (arr_get (c_test_arg c) 1) (\<lambda>a1.
                       mixed_types_loop (unat nstreams)
                         (push_bit 16 (to_u32 a3) OR push_bit 8 (to_u32 a2) OR to_u32 a1))))
                   else Inr (replicate (unat nstreams)
                               (if iso then USB_TRANSFER_TYPE_ISOCHRONOUS else USB_TRANSFER_TYPE_BULK)))
                (\<lambda>xfr_types. streams_init c nstreams xfr_types retrieve checking retrying send)
            else Inr (False, c))
          else if c_test_number c = kUsbTestNumberPinCfg then Inr (True, c)
          else bnd (cassert ''Unrecognised/unsupported test in USBDPI'' False) (\<lambda>_. Inr (False, c)))
       (\<lambda>(ok, c). bnd (cassert ''ok'' ok) (\<lambda>_. Inr c))"

section \<open>The test sequence\<close>

text \<open>The successor of a step once the test is known, in a test without a case of its own.\<close>

definition default_seq_next :: "u32 \<Rightarrow> u32" where
  "default_seq_next step =
     (if step = STEP_GET_TEST_CONFIG then STEP_FIRST_READ
      else if step = STEP_FIRST_READ then STEP_READ_BAUD
      else if step = STEP_SECOND_READ then STEP_SET_BAUD
      else if step = STEP_SET_BAUD then STEP_THIRD_READ
      else if step = STEP_THIRD_READ then STEP_TEST_ISO1
      else if step = STEP_TEST_ISO1 then STEP_TEST_ISO2
      else if step = STEP_ENDPT_UNIMPL_SETUP then STEP_ENDPT_UNIMPL_SETUP
      else if step = STEP_ENDPT_UNIMPL_OUT then STEP_ENDPT_UNIMPL_IN
      else if step = STEP_ENDPT_UNIMPL_IN then STEP_DEVICE_UK_SETUP
      else if step = STEP_DEVICE_UK_SETUP then STEP_IDLE_START
      else if step = STEP_IDLE_END then STEP_IDLE_END
      else step + 1)"

definition usbdpi_test_seq_next :: "ctx \<Rightarrow> u32 \<Rightarrow> u32 \<times> ctx" where
  "usbdpi_test_seq_next c step =
     (if step = STEP_BUS_RESET then (STEP_GET_DEVICE_DESCRIPTOR, c)
      else if step = STEP_GET_DEVICE_DESCRIPTOR then (STEP_SET_DEVICE_ADDRESS, c)
      else if step = STEP_SET_DEVICE_ADDRESS then (STEP_GET_CONFIG_DESCRIPTOR, c)
      else if step = STEP_GET_CONFIG_DESCRIPTOR then (STEP_GET_FULL_CONFIG_DESCRIPTOR, c)
      else if step = STEP_GET_FULL_CONFIG_DESCRIPTOR then (STEP_SET_DEVICE_CONFIG, c)
      else if step = STEP_SET_DEVICE_CONFIG then (STEP_GET_TEST_CONFIG, c)
      else if step = STEP_SET_TEST_STATUS then (STEP_BUS_DISCONNECT, c)
      else if step = STEP_BUS_DISCONNECT
      then (STEP_BUS_DISCONNECT, c\<lparr>c_driving := c_driving c AND NOT P2D_SENSE\<rparr>)
      else if c_test_number c = kUsbTestNumberMixed \<or> c_test_number c = kUsbTestNumberIso
              \<or> c_test_number c = kUsbTestNumberStreams
      then (STEP_STREAM_SERVICE, c)
      else if c_test_number c = kUsbTestNumberPinCfg then (STEP_BUS_RESET, c)
      else (default_seq_next step, c))"

end
