(* ===== verification/Host_Control.thy ===== *)
theory Host_Control
  imports Test_Seq
begin

text \<open>
  The transactions of the host in \<open>usbdpi.c\<close>: one function per test step, each a state
  machine over \<open>hostSt\<close> that is called once per bit interval while the bus is idle.  The
  transactions build their packets in the descriptor \<open>sending\<close> and read the device's
  reply from \<open>recving\<close>.  The compile-time switches \<open>INSERT_ERR_*\<close> have their default
  value, off.
\<close>

section \<open>Shared steps\<close>

text \<open>A token for the current device, or a data stage behind it, in the descriptor \<open>tr\<close>.\<close>

definition put_token :: "ctx \<Rightarrow> nat option \<Rightarrow> u8 \<Rightarrow> u8 \<Rightarrow> u8 \<Rightarrow> ctx res" where
  "put_token c tr pid device endpoint = upd_tr c tr (\<lambda>t. transfer_token t pid device endpoint)"

definition put_data :: "ctx \<Rightarrow> nat option \<Rightarrow> u8 \<Rightarrow> u32 \<Rightarrow> u8 list \<Rightarrow> ctx res" where
  "put_data c tr pid est_size payload = upd_tr c tr (\<lambda>t. data_stage t pid est_size payload)"

definition toggle_out :: "ctx \<Rightarrow> u8 \<Rightarrow> ctx res" where
  "toggle_out c endpoint =
     bnd (arr_get (c_ep_out c) (unat endpoint)) (\<lambda>pid.
       Inr (c\<lparr>c_ep_out := (c_ep_out c)[unat endpoint := DATA_TOGGLE_ADVANCE pid]\<rparr>))"

section \<open>Standard requests\<close>

definition setDeviceAddress :: "ctx \<Rightarrow> u8 \<Rightarrow> ctx res" where
  "setDeviceAddress c dev_addr =
     (let tr = c_sending c in
      case c_hostSt c of
        HS_STARTFRAME \<Rightarrow>
          bnd (put_token c tr USB_PID_SETUP (c_dev_address c) ENDPOINT_ZERO) (\<lambda>c.
          bnd (put_data c tr USB_PID_DATA0 8
                 [0, USB_REQ_SET_ADDRESS, dev_addr, 0, 0xFF, 0, 0, 0]) (\<lambda>c.
          bnd (transfer_send c tr) (\<lambda>c.
            Inr (c\<lparr>c_bus_state := kUsbControlSetup, c_hostSt := HS_WAITACK\<rparr>))))
      | HS_WAITACK \<Rightarrow> Inr (c\<lparr>c_wait := c_tick_bits c + 532, c_hostSt := HS_SET_DATASTAGE\<rparr>)
      | HS_SET_DATASTAGE \<Rightarrow>
          if c_bus_state c = kUsbControlSetupAck \<and> c_tick_bits c \<ge> c_wait c then
            bnd (put_token c tr USB_PID_IN 0 0) (\<lambda>c.
            bnd (transfer_send c tr) (\<lambda>c.
              Inr (c\<lparr>c_bus_state := kUsbControlStatusInToken, c_hostSt := HS_DS_RXDATA\<rparr>)))
          else Inr c
      | HS_DS_RXDATA \<Rightarrow> Inr (c\<lparr>c_wait := c_tick_bits c + 24, c_hostSt := HS_DS_SENDACK\<rparr>)
      | HS_DS_SENDACK \<Rightarrow>
          if c_bus_state c = kUsbControlStatusInData \<or> c_tick_bits c \<ge> c_wait c then
            bnd (transfer_status c tr USB_PID_ACK) (\<lambda>c.
              Inr (c\<lparr>c_bus_state := kUsbIdle, c_hostSt := HS_NEXTFRAME, c_dev_address := dev_addr\<rparr>))
          else Inr c
      | _ \<Rightarrow> Inr c)"

definition setDeviceConfiguration :: "ctx \<Rightarrow> u8 \<Rightarrow> ctx res" where
  "setDeviceConfiguration c config =
     (let tr = c_sending c in
      case c_hostSt c of
        HS_STARTFRAME \<Rightarrow>
          bnd (put_token c tr USB_PID_SETUP (c_dev_address c) ENDPOINT_ZERO) (\<lambda>c.
          bnd (put_data c tr USB_PID_DATA0 8
                 [0, USB_REQ_SET_CONFIGURATION, config, 0, 0, 0, 0, 0]) (\<lambda>c.
          bnd (transfer_send c tr) (\<lambda>c.
            Inr (c\<lparr>c_bus_state := kUsbControlSetup, c_hostSt := HS_WAITACK\<rparr>))))
      | HS_WAITACK \<Rightarrow> Inr (c\<lparr>c_wait := c_tick_bits c + 532, c_hostSt := HS_SET_DATASTAGE\<rparr>)
      | HS_SET_DATASTAGE \<Rightarrow>
          if c_bus_state c = kUsbControlSetupAck \<and> c_tick_bits c \<ge> c_wait c then
            bnd (put_token c tr USB_PID_IN (c_dev_address c) ENDPOINT_ZERO) (\<lambda>c.
            bnd (transfer_send c tr) (\<lambda>c.
              Inr (c\<lparr>c_bus_state := kUsbControlStatusInToken, c_hostSt := HS_DS_RXDATA\<rparr>)))
          else Inr c
      | HS_DS_RXDATA \<Rightarrow> Inr (c\<lparr>c_wait := c_tick_bits c + 24, c_hostSt := HS_DS_SENDACK\<rparr>)
      | HS_DS_SENDACK \<Rightarrow>
          if c_bus_state c = kUsbControlStatusInData \<or> c_tick_bits c \<ge> c_wait c then
            bnd (transfer_status c tr USB_PID_ACK) (\<lambda>c.
              Inr (c\<lparr>c_bus_state := kUsbIdle, c_hostSt := HS_NEXTFRAME\<rparr>))
          else Inr c
      | _ \<Rightarrow> Inr c)"

text \<open>The steps that \<open>getDescriptor\<close> and \<open>getTestConfig\<close> have in common.\<close>

definition control_in_token :: "ctx \<Rightarrow> ctx res" where
  "control_in_token c =
     (let tr = c_sending c in
      if c_tick_bits c \<ge> c_wait c \<and> c_bus_state c = kUsbControlSetupAck then
        bnd (put_token c tr USB_PID_IN (c_dev_address c) ENDPOINT_ZERO) (\<lambda>c.
        bnd (transfer_send c tr) (\<lambda>c.
          Inr (c\<lparr>c_bus_state := kUsbControlDataInToken, c_hostSt := HS_WAITDATA\<rparr>)))
      else Inr c)"

definition control_in_ack :: "ctx \<Rightarrow> ctx res" where
  "control_in_ack c =
     (let tr = c_sending c in
      bnd (transfer_status c tr USB_PID_ACK) (\<lambda>c.
      bnd (transfer_send c tr) (\<lambda>c.
        Inr (c\<lparr>c_bus_state := kUsbControlDataInAck, c_hostSt := HS_WAIT_PKT,
               c_wait := c_tick_bits c + 200\<rparr>))))"

definition control_status_out :: "ctx \<Rightarrow> ctx res" where
  "control_status_out c =
     (let tr = c_sending c in
      bnd (put_token c tr USB_PID_OUT (c_dev_address c) ENDPOINT_ZERO) (\<lambda>c.
      bnd (put_data c tr USB_PID_DATA1 0 []) (\<lambda>c.
      bnd (transfer_send c tr) (\<lambda>c.
        Inr (c\<lparr>c_bus_state := kUsbControlStatusOut, c_hostSt := HS_WAITACK2,
               c_wait := c_tick_bits c + 200\<rparr>)))))"

definition control_status_ack :: "ctx \<Rightarrow> ctx res" where
  "control_status_ack c =
     (if c_bus_state c = kUsbControlStatusOutAck then
        if c_lastrxpid c = USB_PID_ACK then
          bnd (toggle_out c ENDPOINT_ZERO) (\<lambda>c. Inr (c\<lparr>c_hostSt := HS_NEXTFRAME\<rparr>))
        else if c_lastrxpid c = USB_PID_NAK then
          Inr (c\<lparr>c_hostSt := HS_WAITACK2, c_wait := c_tick_bits c + 200\<rparr>)
        else Inr (c\<lparr>c_hostSt := HS_NEXTFRAME\<rparr>)
      else if c_tick_bits c \<ge> c_wait c then Inr (c\<lparr>c_hostSt := HS_NEXTFRAME\<rparr>)
      else Inr c)"

definition getDescriptor :: "ctx \<Rightarrow> u8 \<Rightarrow> u8 \<Rightarrow> u16 \<Rightarrow> ctx res" where
  "getDescriptor c desc_type desc_idx desc_len =
     (case c_hostSt c of
        HS_STARTFRAME \<Rightarrow>
          transfer_setup c (c_sending c) 0x80 USB_REQ_GET_DESCRIPTOR
            (push_bit 8 (to_u16 desc_type) OR to_u16 desc_idx) 0 desc_len
      | HS_WAITACK \<Rightarrow> Inr (c\<lparr>c_wait := c_tick_bits c + 1164, c_hostSt := HS_REQDATA\<rparr>)
      | HS_REQDATA \<Rightarrow> control_in_token c
      | HS_WAITDATA \<Rightarrow> Inr (c\<lparr>c_wait := c_tick_bits c + 2000, c_hostSt := HS_SENDACK\<rparr>)
      | HS_SENDACK \<Rightarrow>
          if c_bus_state c = kUsbControlDataInData then
            bnd (if c_step c = STEP_GET_CONFIG_DESCRIPTOR then
                   bnd (cassert ''recving'' (c_recving c \<noteq> None)) (\<lambda>_.
                   bnd (get_tr c (c_recving c)) (\<lambda>rx.
                   bnd (cassert ''dp'' (transfer_data_field rx \<noteq> None)) (\<lambda>_.
                   bnd (nonnull (transfer_data_field rx)) (\<lambda>dp.
                   bnd (arr_get (t_data rx) (dp + 2)) (\<lambda>lo.
                   bnd (arr_get (t_data rx) (dp + 3)) (\<lambda>hi.
                     Inr (c\<lparr>c_cfg_desc_len := to_u16 (to_u32 lo OR push_bit 8 (to_u32 hi))\<rparr>)))))))
                 else Inr c) control_in_ack
          else if c_tick_bits c \<ge> c_wait c then
            Inr (c\<lparr>c_hostSt := HS_NEXTFRAME, c_bus_state := kUsbIdle\<rparr>)
          else Inr c
      | HS_WAIT_PKT \<Rightarrow>
          if c_tick_bits c \<ge> c_wait c then Inr (c\<lparr>c_hostSt := HS_EMPTYDATA\<rparr>) else Inr c
      | HS_EMPTYDATA \<Rightarrow> control_status_out c
      | HS_WAITACK2 \<Rightarrow> control_status_ack c
      | _ \<Rightarrow> Inr c)"

section \<open>The test configuration\<close>

text \<open>Validation of the test descriptor at \<open>d\<close>, the buffer from the data field on.\<close>

definition test_desc_valid :: "u8 list \<Rightarrow> bool res" where
  "test_desc_valid d =
     bnd (arr_read d 0 4) (\<lambda>head.
     if head \<noteq> [0x7e, 0x57, 0xc0, 0xf1] then Inr False
     else
       bnd (get_le16 (drop 4 d)) (\<lambda>len.
       if len \<noteq> 0x10 then Inr False
       else bnd (arr_read d 12 4) (\<lambda>tail. Inr (tail = [0x1f, 0x0c, 0x75, 0xe7]))))"

definition read_test_desc :: "ctx \<Rightarrow> ctx res" where
  "read_test_desc c =
     bnd (cassert ''rx'' (c_recving c \<noteq> None)) (\<lambda>_.
     bnd (get_tr c (c_recving c)) (\<lambda>rx.
     bnd (cassert ''dp'' (transfer_data_field rx \<noteq> None)) (\<lambda>_.
     bnd (nonnull (transfer_data_field rx)) (\<lambda>dp.
     let d = drop dp (t_data rx) in
     bnd (get_le32 d) (\<lambda>_.
     bnd (test_desc_valid d) (\<lambda>valid.
     if valid then
       bnd (get_le16 (drop 6 d)) (\<lambda>test_number.
       bnd (arr_read d 8 4) (\<lambda>args.
         usbdpi_test_init (c\<lparr>c_test_number := to_u32 test_number, c_test_arg := args\<rparr>)))
     else bnd (cassert ''Cannot proceed without test descriptor'' False) (\<lambda>_. Inr c)))))))"

definition getTestConfig :: "ctx \<Rightarrow> u16 \<Rightarrow> ctx res" where
  "getTestConfig c desc_len =
     bnd (cassert ''tr'' (c_sending c \<noteq> None)) (\<lambda>_.
     case c_hostSt c of
       HS_STARTFRAME \<Rightarrow>
         transfer_setup c (c_sending c) 0xc2 USBDPI_VENDOR_TEST_CONFIG 0 0 desc_len
     | HS_WAITACK \<Rightarrow> Inr (c\<lparr>c_wait := c_tick_bits c + 1164, c_hostSt := HS_REQDATA\<rparr>)
     | HS_REQDATA \<Rightarrow> control_in_token c
     | HS_WAITDATA \<Rightarrow> Inr (c\<lparr>c_wait := c_tick_bits c + 2000, c_hostSt := HS_SENDACK\<rparr>)
     | HS_SENDACK \<Rightarrow>
         if c_bus_state c = kUsbControlDataInData then
           bnd (if c_lastrxpid c = USB_PID_DATA1 then read_test_desc c
                else if c_lastrxpid c = USB_PID_NAK then
                  bnd (cassert ''DPI is unable to retrieve test config'' False) (\<lambda>_.
                    Inr (c\<lparr>c_hostSt := HS_NEXTFRAME\<rparr>))
                else if c_lastrxpid c = USB_PID_STALL then
                  bnd (cassert ''Device is stalled'' False) (\<lambda>_. Inr (c\<lparr>c_hostSt := HS_NEXTFRAME\<rparr>))
                else
                  bnd (cassert ''Unexpected handshake response'' False) (\<lambda>_.
                    Inr (c\<lparr>c_hostSt := HS_NEXTFRAME\<rparr>))) control_in_ack
         else if c_tick_bits c \<ge> c_wait c then
           Inr (c\<lparr>c_hostSt := HS_NEXTFRAME, c_bus_state := kUsbIdle\<rparr>)
         else Inr c
     | HS_WAIT_PKT \<Rightarrow>
         if c_tick_bits c \<ge> c_wait c then Inr (c\<lparr>c_hostSt := HS_EMPTYDATA\<rparr>) else Inr c
     | HS_EMPTYDATA \<Rightarrow> control_status_out c
     | HS_WAITACK2 \<Rightarrow> control_status_ack c
     | _ \<Rightarrow> Inr c)"

text \<open>\<open>setTestStatus\<close> is an empty placeholder in the code.\<close>

definition setTestStatus :: "ctx \<Rightarrow> u32 \<Rightarrow> ctx res" where
  "setTestStatus c status = Inr c"

section \<open>Vendor-specific requests\<close>

definition readBaud :: "ctx \<Rightarrow> u8 \<Rightarrow> ctx res" where
  "readBaud c endpoint =
     (let tr = c_sending c in
      case c_hostSt c of
        HS_STARTFRAME \<Rightarrow>
          bnd (put_token c tr USB_PID_SETUP (c_dev_address c) endpoint) (\<lambda>c.
          bnd (put_data c tr USB_PID_DATA0 0 [0xc2, 2, 0, 0, 0, 0, 0x2, 0]) (\<lambda>c.
          bnd (transfer_send c tr) (\<lambda>c.
            Inr (c\<lparr>c_bus_state := kUsbControlSetup, c_hostSt := HS_WAITACK\<rparr>))))
      | HS_WAITACK \<Rightarrow> Inr (c\<lparr>c_wait := c_tick_bits c + 32, c_hostSt := HS_REQDATA\<rparr>)
      | HS_REQDATA \<Rightarrow>
          if c_tick_bits c \<ge> c_wait c then
            bnd (put_token c tr USB_PID_IN (c_dev_address c) endpoint) (\<lambda>c.
            bnd (transfer_send c tr) (\<lambda>c. Inr (c\<lparr>c_hostSt := HS_WAITDATA\<rparr>)))
          else Inr c
      | HS_WAITDATA \<Rightarrow> Inr (c\<lparr>c_wait := c_tick_bits c + 200, c_hostSt := HS_SENDACK\<rparr>)
      | HS_SENDACK \<Rightarrow>
          if c_tick_bits c \<ge> c_wait c then
            bnd (transfer_status c tr USB_PID_ACK) (\<lambda>c. Inr (c\<lparr>c_hostSt := HS_EMPTYDATA\<rparr>))
          else Inr c
      | HS_EMPTYDATA \<Rightarrow>
          bnd (put_token c tr USB_PID_OUT (c_dev_address c) endpoint) (\<lambda>c.
          bnd (arr_get (c_ep_out c) (unat endpoint)) (\<lambda>pid.
          bnd (put_data c tr pid 0 []) (\<lambda>c.
          bnd (transfer_send c tr) (\<lambda>c.
            Inr (c\<lparr>c_bus_state := kUsbControlStatusOut, c_hostSt := HS_WAITACK2,
                   c_wait := c_tick_bits c + 200\<rparr>)))))
      | HS_WAITACK2 \<Rightarrow>
          if c_tick_bits c \<ge> c_wait c \<or> c_bus_state c = kUsbControlStatusOutAck then
            bnd (if c_lastrxpid c = USB_PID_ACK then toggle_out c endpoint else Inr c) (\<lambda>c.
              Inr (c\<lparr>c_hostSt := HS_NEXTFRAME\<rparr>))
          else Inr c
      | _ \<Rightarrow> Inr c)"

definition setBaud :: "ctx \<Rightarrow> u8 \<Rightarrow> ctx res" where
  "setBaud c endpoint =
     (let tr = c_sending c in
      case c_hostSt c of
        HS_STARTFRAME \<Rightarrow>
          bnd (put_token c tr USB_PID_SETUP (c_dev_address c) endpoint) (\<lambda>c.
          bnd (put_data c tr USB_PID_DATA0 0 [0x42, 3, 96, 0, 0, 0, 0, 0]) (\<lambda>c.
          bnd (transfer_send c tr) (\<lambda>c.
            Inr (c\<lparr>c_bus_state := kUsbControlSetup, c_hostSt := HS_WAITACK\<rparr>))))
      | HS_WAITACK \<Rightarrow> Inr (c\<lparr>c_wait := c_tick_bits c + 32, c_hostSt := HS_REQDATA\<rparr>)
      | HS_REQDATA \<Rightarrow>
          if c_tick_bits c \<ge> c_wait c then
            bnd (put_token c tr USB_PID_IN (c_dev_address c) endpoint) (\<lambda>c.
            bnd (transfer_send c tr) (\<lambda>c. Inr (c\<lparr>c_hostSt := HS_WAITDATA\<rparr>)))
          else Inr c
      | HS_WAITDATA \<Rightarrow> Inr (c\<lparr>c_wait := c_tick_bits c + 40, c_hostSt := HS_SENDACK\<rparr>)
      | HS_SENDACK \<Rightarrow>
          if c_tick_bits c \<ge> c_wait c then
            bnd (transfer_status c tr USB_PID_ACK) (\<lambda>c.
              Inr (c\<lparr>c_hostSt := HS_NEXTFRAME, c_baudrate_set_successfully := 1\<rparr>))
          else Inr c
      | _ \<Rightarrow> Inr c)"

section \<open>Data transactions\<close>

text \<open>The array \<open>pattern\<close>: its size is the compiler's, with the terminator of the string.\<close>

definition tx_pattern :: "u8 list" where
  "tx_pattern = map of_char
     (''AbCdEfGhIjKlMnOpQrStUvWxYz+0123456789-aBcDeFgHiJkLmNoPqRsTuVwXyZ'' @ [CHR 0x00])"

definition tryTX :: "ctx \<Rightarrow> u8 \<Rightarrow> bool \<Rightarrow> ctx res" where
  "tryTX c endpoint expect_status =
     (let tr = c_sending c in
      case c_hostSt c of
        HS_STARTFRAME \<Rightarrow>
          bnd (put_token c tr USB_PID_OUT (c_dev_address c) endpoint) (\<lambda>c.
          bnd (arr_get (c_ep_out c) (unat endpoint)) (\<lambda>pid.
          bnd (put_data c tr pid 0 tx_pattern) (\<lambda>c.
          bnd (transfer_send c tr) (\<lambda>c.
            Inr (c\<lparr>c_bus_state := kUsbBulkOut, c_hostSt := HS_WAITACK\<rparr>)))))
      | HS_WAITACK \<Rightarrow> Inr (c\<lparr>c_wait := c_tick_bits c + 32, c_hostSt := HS_REQDATA\<rparr>)
      | HS_REQDATA \<Rightarrow>
          if c_tick_bits c \<ge> c_wait c then
            bnd (if expect_status \<and> c_lastrxpid c = USB_PID_ACK then toggle_out c endpoint
                 else Inr c) (\<lambda>c.
            bnd (put_token c tr USB_PID_IN (c_dev_address c) endpoint) (\<lambda>c.
            bnd (transfer_send c tr) (\<lambda>c. Inr (c\<lparr>c_hostSt := HS_WAITDATA\<rparr>))))
          else Inr c
      | HS_WAITDATA \<Rightarrow> Inr (c\<lparr>c_wait := c_tick_bits c + 40, c_hostSt := HS_NEXTFRAME\<rparr>)
      | _ \<Rightarrow> Inr c)"

definition pollRX :: "ctx \<Rightarrow> u8 \<Rightarrow> bool \<Rightarrow> bool \<Rightarrow> ctx res" where
  "pollRX c endpoint send_hi nak_data =
     (let tr = c_sending c in
      case c_hostSt c of
        HS_STARTFRAME \<Rightarrow>
          bnd (put_token c tr USB_PID_IN (c_dev_address c) endpoint) (\<lambda>c.
          bnd (transfer_send c tr) (\<lambda>c.
            Inr (c\<lparr>c_bus_state := kUsbBulkInToken, c_hostSt := HS_WAIT_PKT, c_lastrxpid := 0\<rparr>)))
      | HS_WAIT_PKT \<Rightarrow>
          Inr (c\<lparr>c_wait := c_tick_bits c + 18 + 8 + 8 + 64 * 8 + 16, c_hostSt := HS_ACKIFDATA\<rparr>)
      | HS_ACKIFDATA \<Rightarrow>
          if c_bus_state c = kUsbBulkInData then
            bnd (if c_lastrxpid c \<noteq> USB_PID_NAK
                 then transfer_status c tr (if nak_data then USB_PID_NAK else USB_PID_ACK)
                 else Inr c) (\<lambda>c.
              Inr (c\<lparr>c_hostSt := HS_SENDHI\<rparr>))
          else if c_tick_bits c \<ge> c_wait c then Inr (c\<lparr>c_hostSt := HS_SENDHI\<rparr>)
          else Inr c
      | HS_SENDHI \<Rightarrow>
          if send_hi then
            bnd (put_token c tr USB_PID_OUT (c_dev_address c) endpoint) (\<lambda>c.
            bnd (arr_get (c_ep_out c) (unat endpoint)) (\<lambda>pid.
            bnd (put_data c tr pid 0 [0x48, 0x69, 0x21]) (\<lambda>c.
            bnd (transfer_send c tr) (\<lambda>c.
              Inr (c\<lparr>c_wait := c_tick_bits c + 532, c_hostSt := HS_WAITACK\<rparr>)))))
          else Inr (c\<lparr>c_hostSt := HS_NEXTFRAME\<rparr>)
      | HS_WAITACK \<Rightarrow>
          if c_tick_bits c \<ge> c_wait c then
            bnd (if c_lastrxpid c = USB_PID_ACK then toggle_out c endpoint else Inr c) (\<lambda>c.
              Inr (c\<lparr>c_hostSt := HS_NEXTFRAME\<rparr>))
          else Inr c
      | _ \<Rightarrow> Inr c)"

definition testUnimplEp :: "ctx \<Rightarrow> u8 \<Rightarrow> u8 \<Rightarrow> u8 \<Rightarrow> ctx res" where
  "testUnimplEp c pid device endpoint =
     (let tr = c_sending c in
      case c_hostSt c of
        HS_STARTFRAME \<Rightarrow>
          if pid = USB_PID_SETUP \<or> pid = USB_PID_OUT then
            bnd (put_token c tr pid device endpoint) (\<lambda>c.
            bnd (put_data c tr USB_PID_DATA0 0 [0, 5, 2, 0, 0xFF, 0, 0, 0]) (\<lambda>c.
            bnd (transfer_send c tr) (\<lambda>c. Inr (c\<lparr>c_hostSt := HS_WAITACK\<rparr>))))
          else if pid = USB_PID_IN then
            bnd (put_token c tr pid device endpoint) (\<lambda>c.
            bnd (transfer_send c tr) (\<lambda>c. Inr (c\<lparr>c_hostSt := HS_WAITACK\<rparr>)))
          else Inr (c\<lparr>c_hostSt := HS_NEXTFRAME\<rparr>)
      | HS_WAITACK \<Rightarrow> Inr (c\<lparr>c_wait := c_tick_bits c + 32, c_hostSt := HS_NEXTFRAME\<rparr>)
      | _ \<Rightarrow> Inr c)"

definition testIso :: "ctx \<Rightarrow> ctx res" where
  "testIso c = tryTX c ENDPOINT_ISOCHRONOUS False"

end
