(* ===== verification/Host.thy ===== *)
theory Host
  imports Host_Control
begin

text \<open>
  The entry points of the DPI model in \<open>usbdpi.c\<close>: \<open>usbdpi_device_to_host\<close>, called when
  the device's outputs change, \<open>usbdpi_host_to_device\<close>, called once per 48 MHz clock, the
  callback through which the bus monitor delivers the device's packets, and the
  diagnostics.  \<open>usbdpi_host_to_device\<close> is split at its sections: the frame timer, the
  step of the host state machine and one definition per state of the driver.
\<close>

section \<open>Device to host\<close>

text \<open>The state of D+ and D- as the host sees it.\<close>

definition device_pins :: "u32 \<Rightarrow> bool \<times> bool" where
  "device_pins d2p =
     (if has d2p D2P_TX_USE_D_SE0 then
        if has d2p D2P_D_EN then
          if has d2p D2P_DNPU
          then (\<not> has d2p D2P_SE0 \<and> \<not> has d2p D2P_D, \<not> has d2p D2P_SE0 \<and> has d2p D2P_D)
          else (\<not> has d2p D2P_SE0 \<and> has d2p D2P_D, \<not> has d2p D2P_SE0 \<and> \<not> has d2p D2P_D)
        else (has d2p D2P_PU, False)
      else if has d2p D2P_DNPU then
        (has d2p D2P_DN_EN \<and> has d2p D2P_DN \<or> \<not> has d2p D2P_DN_EN \<and> has d2p D2P_DNPU,
         has d2p D2P_DP_EN \<and> has d2p D2P_DP)
      else
        (has d2p D2P_DP_EN \<and> has d2p D2P_DP \<or> \<not> has d2p D2P_DP_EN \<and> has d2p D2P_DPPU,
         has d2p D2P_DN_EN \<and> has d2p D2P_DN))"

text \<open>The bus state after an end of packet from the device.\<close>

fun eop_bus_state :: "bus_state \<Rightarrow> bus_state" where
  "eop_bus_state kUsbControlSetup = kUsbControlSetupAck"
| "eop_bus_state kUsbControlDataOut = kUsbControlDataOutAck"
| "eop_bus_state kUsbControlStatusInToken = kUsbControlStatusInData"
| "eop_bus_state kUsbControlDataInToken = kUsbControlDataInData"
| "eop_bus_state kUsbControlStatusOut = kUsbControlStatusOutAck"
| "eop_bus_state kUsbIsoInToken = kUsbIsoInData"
| "eop_bus_state kUsbBulkOut = kUsbBulkOutAck"
| "eop_bus_state kUsbBulkInToken = kUsbBulkInData"
| "eop_bus_state kUsbInterruptOut = kUsbInterruptOutAck"
| "eop_bus_state kUsbInterruptInToken = kUsbInterruptInData"
| "eop_bus_state b = b"

definition decode_usb :: "bool \<Rightarrow> bool \<Rightarrow> string" where
  "decode_usb dp dn =
     (if dp then (if dn then ''SE1'' else ''1-J'') else (if dn then ''0-K'' else ''SE0''))"

text \<open>\<open>raw_str\<close>: the eleven signals from the device, the highest bit first.\<close>

definition raw_str :: "u32 \<Rightarrow> string" where
  "raw_str d2p = map (\<lambda>i. if has d2p (push_bit i 1) then CHR ''1'' else CHR ''0'')
     [10, 9, 8, 7, 6, 5, 4, 3, 2, 1, 0]"

definition pullup_message :: "ctx \<Rightarrow> u32 \<Rightarrow> string" where
  "pullup_message c d2p =
     ''0x'' @ hex_left 3 (c_frame c) @ '' 0x'' @ hex_left 8 (c_tick_bits c) @ '' Pullup change to ''
       @ (if has d2p D2P_DPPU then ''DP Pulled up '' else [])
       @ (if has d2p D2P_DNPU then ''DN Pulled up '' else [])
       @ (if has d2p D2P_TX_USE_D_SE0 then ''SingleEnded'' else ''Differential'') @ nl"

definition d2p_message :: "ctx \<Rightarrow> u32 \<Rightarrow> string" where
  "d2p_message c d2p =
     ''0x'' @ hex_left 3 (c_frame c) @ '' 0x'' @ hex_left 8 (c_tick_bits c) @ '' '' @ raw_str d2p
       @ '' '' @ (if has d2p D2P_PU then ''PU'' else ''  '')
       @ '' '' @ (if c_state c = ST_GET
                  then decode_usb (fst (device_pins d2p)) (snd (device_pins d2p)) else ''ZZ '')
       @ '' '' @ hex d2p @ nl"

definition usbdpi_device_to_host :: "ctx \<Rightarrow> u32 \<Rightarrow> ctx res" where
  "usbdpi_device_to_host c d2p =
     (let dp = fst (device_pins d2p); dn = snd (device_pins d2p);
          c = (if has d2p (D2P_DP_EN OR D2P_DN_EN OR D2P_D_EN)
               then (if c_state c = ST_IDLE then c\<lparr>c_state := ST_GET\<rparr> else c)
               else (if c_state c = ST_GET then c\<lparr>c_state := ST_IDLE\<rparr> else c)) in
      bnd (if d2p AND D2P_PU \<noteq> c_last_pu c
           then bnd (ctx_log c (pullup_message c d2p)) (\<lambda>c. Inr (c\<lparr>c_last_pu := d2p AND D2P_PU\<rparr>))
           else Inr c) (\<lambda>c.
      bnd (if has (c_loglevel c) LOG_BIT then ctx_log c (d2p_message c d2p) else Inr c) (\<lambda>c.
        Inr (if c_state c = ST_GET \<and> \<not> dp \<and> \<not> dn
             then c\<lparr>c_bus_state := eop_bus_state (c_bus_state c)\<rparr> else c))))"

section \<open>Reception\<close>

definition usbdpi_data_callback :: "mon_data_type \<Rightarrow> u8 \<Rightarrow> ctx \<Rightarrow> ctx res" where
  "usbdpi_data_callback type d c =
     (if c_state c \<noteq> ST_GET then Inr c
      else
        bnd (if c_recving c = None
             then bnd (transfer_alloc c) (\<lambda>(tr, c). Inr (c\<lparr>c_recving := tr\<rparr>)) else Inr c) (\<lambda>c.
        let tr = c_recving c in
        bnd (cassert ''tr'' (tr \<noteq> None)) (\<lambda>_.
        bnd (get_tr c tr) (\<lambda>t.
        bnd (case type of
               UsbMon_DataType_Sync \<Rightarrow> Inr (True, transfer_init t)
             | UsbMon_DataType_EOP \<Rightarrow> Inr (True, t)
             | UsbMon_DataType_PID \<Rightarrow>
                 if d = USB_PID_DATA0 \<or> d = USB_PID_DATA1
                 then bnd (transfer_data_start t d 0) (\<lambda>(t, dp). Inr (dp \<noteq> None, t))
                 else transfer_append t [d]
             | UsbMon_DataType_Byte \<Rightarrow> transfer_append t [d]) (\<lambda>(ok, t).
        bnd (upd_tr c tr (\<lambda>_. Inr t)) (\<lambda>c.
        bnd (cassert ''ok'' ok) (\<lambda>_. Inr c)))))))"

section \<open>Host to device: frames and steps\<close>

text \<open>The advance of the test sequence at the start of a frame.\<close>

definition frame_advance :: "ctx \<Rightarrow> ctx res" where
  "frame_advance c =
     (if c_hostSt c = HS_NEXTFRAME then
        let (step, c) = usbdpi_test_seq_next c (c_step c) in
        Inr (c\<lparr>c_step := step, c_num_tries := 0, c_hostSt := HS_STARTFRAME\<rparr>)
      else
        let num_tries = c_num_tries c + 1 in
        if num_tries \<ge> USBDPI_MAX_TRIES then
          bnd (cassert ''USBDPI: no response to Control Transfer'' False) (\<lambda>_.
            Inr (c\<lparr>c_num_tries := 0\<rparr>))
        else Inr (c\<lparr>c_num_tries := num_tries, c_hostSt := HS_STARTFRAME\<rparr>))"

definition host_frame :: "ctx \<Rightarrow> ctx res" where
  "host_frame c =
     (if c_tick_bits c - c_frame_start c \<ge> FRAME_INTERVAL then
        if c_state c \<noteq> ST_IDLE then Inr (c\<lparr>c_framepend := True\<rparr>)
        else
          let c = c\<lparr>c_framepend := False, c_frame := c_frame c + 1, c_frame_start := c_tick_bits c\<rparr> in
          bnd (if c_step c \<ge> STEP_IDLE_START \<and> c_step c < STEP_IDLE_END
               then Inr (c\<lparr>c_state := ST_IDLE\<rparr>)
               else
                 bnd (ensure_sending c) (\<lambda>c.
                 bnd (transfer_frame_start c (c_sending c) (to_u32 (c_frame c))) (\<lambda>c.
                   Inr (c\<lparr>c_state := ST_SYNC\<rparr>)))) frame_advance
      else Inr c)"

definition step_bus_reset :: "ctx \<Rightarrow> u32 \<Rightarrow> ctx" where
  "step_bus_reset c d2p =
     (if c_hostSt c = HS_STARTFRAME then
        let c = bus_reset c;
            c = c\<lparr>c_wait := c_tick_bits c + 532\<rparr>;
            c = c\<lparr>c_driving := set_driving c d2p 0 True\<rparr>
        in c\<lparr>c_hostSt := HS_NEXTFRAME\<rparr>
      else
        let c = (if c_tick_bits c \<ge> c_wait c
                 then c\<lparr>c_driving := set_driving c d2p P2D_DP False\<rparr> else c)
        in c\<lparr>c_hostSt := HS_NEXTFRAME\<rparr>)"

text \<open>The switch on the step of the test sequence, and the state \<open>ST_IDLE\<close> of the driver.\<close>

definition host_dispatch :: "ctx \<Rightarrow> u32 \<Rightarrow> ctx res" where
  "host_dispatch c d2p =
     (let step = c_step c in
      if step = STEP_BUS_RESET then Inr (step_bus_reset c d2p)
     else if step = STEP_SET_DEVICE_ADDRESS then setDeviceAddress c USBDEV_ADDRESS
     else if step = STEP_GET_DEVICE_DESCRIPTOR then
       getDescriptor (c\<lparr>c_cfg_desc_len := 0x12\<rparr>) USB_DESC_TYPE_DEVICE 0 0x12
     else if step = STEP_GET_CONFIG_DESCRIPTOR then
       getDescriptor c USB_DESC_TYPE_CONFIGURATION 0 0x9
     else if step = STEP_GET_FULL_CONFIG_DESCRIPTOR then
       getDescriptor c USB_DESC_TYPE_CONFIGURATION 0
         (if unat (c_cfg_desc_len c) \<ge> USBDEV_MAX_PACKET_SIZE then of_nat USBDEV_MAX_PACKET_SIZE
          else c_cfg_desc_len c)
     else if step = STEP_SET_DEVICE_CONFIG then setDeviceConfiguration c 1
     else if step = STEP_GET_TEST_CONFIG then getTestConfig c 0x10
     else if step = STEP_SET_TEST_STATUS then setTestStatus c (c_test_status c)
     else if step = STEP_FIRST_READ then pollRX c ENDPOINT_SERIAL0 True True
     else if step = STEP_READ_BAUD then readBaud c ENDPOINT_ZERO
     else if step = STEP_SECOND_READ then pollRX c ENDPOINT_SERIAL0 True False
     else if step = STEP_SET_BAUD then setBaud c ENDPOINT_ZERO
     else if step = STEP_THIRD_READ then pollRX c ENDPOINT_SERIAL0 False True
     else if step = STEP_TEST_ISO1 then testIso c
     else if step = STEP_TEST_ISO2 then testIso c
     else if step = STEP_ENDPT_UNIMPL_SETUP then
       testUnimplEp c USB_PID_SETUP (c_dev_address c) ENDPOINT_UNIMPLEMENTED
     else if step = STEP_ENDPT_UNIMPL_OUT then
       testUnimplEp c USB_PID_OUT (c_dev_address c) ENDPOINT_UNIMPLEMENTED
     else if step = STEP_ENDPT_UNIMPL_IN then
       testUnimplEp c USB_PID_IN (c_dev_address c) ENDPOINT_UNIMPLEMENTED
     else if step = STEP_DEVICE_UK_SETUP then testUnimplEp c USB_PID_SETUP UKDEV_ADDRESS 1
     else if step = STEP_STREAM_SERVICE then streams_service c
     else if step < STEP_IDLE_START \<or> step \<ge> STEP_IDLE_END
     then pollRX c ENDPOINT_SERIAL0 False False
     else Inr c)"

definition host_step :: "ctx \<Rightarrow> u32 \<Rightarrow> ctx res" where
  "host_step c d2p = bnd (ensure_sending c) (\<lambda>c. host_dispatch c d2p)"

section \<open>Host to device: the line driver\<close>

text \<open>One bit interval in each driver state; the flag is \<open>force_stat\<close>.\<close>

definition drive_sync :: "ctx \<Rightarrow> u32 \<Rightarrow> bool \<times> ctx" where
  "drive_sync c d2p =
     (let dat = (if has USB_SYNC (c_bit c) then P2D_DP else P2D_DN);
          c = c\<lparr>c_driving := set_driving c d2p dat True\<rparr>;
          c = c\<lparr>c_bit := push_bit 1 (c_bit c)\<rparr>
      in (True, if c_bit c = 0x100
                then c\<lparr>c_bit := 1, c_linebits := 1, c_state := ST_SEND\<rparr> else c))"

definition drive_send :: "ctx \<Rightarrow> u32 \<Rightarrow> (bool \<times> ctx) res" where
  "drive_send c d2p =
     bnd (cassert ''sending'' (c_sending c \<noteq> None)) (\<lambda>_.
     if c_linebits c AND 0x3f = 0x3f then
       Inr (True, c\<lparr>c_driving := inv_driving c d2p, c_linebits := push_bit 1 (c_linebits c)\<rparr>)
     else
       bnd (get_tr c (c_sending c)) (\<lambda>t.
       if c_byte c \<ge> unat (t_num_bytes t) then
         Inr (True, c\<lparr>c_state := ST_EOP, c_driving := set_driving c d2p 0 True, c_bit := 1\<rparr>)
       else
         bnd (arr_get (t_data t) (c_byte c)) (\<lambda>b.
         let nextbit = has (to_u32 b) (c_bit c);
             c = (if nextbit then c else c\<lparr>c_driving := inv_driving c d2p\<rparr>);
             c = c\<lparr>c_linebits := push_bit 1 (c_linebits c) OR (if nextbit then 1 else 0),
                   c_bit := push_bit 1 (c_bit c)\<rparr>
         in Inr (True,
                 if c_bit c = 0x100 then
                   let c = c\<lparr>c_bit := 1, c_byte := c_byte c + 1\<rparr>
                   in if c_byte c = unat (t_data_start t) then c\<lparr>c_state := ST_EOP0\<rparr> else c
                 else c))))"

definition drive_eop0 :: "ctx \<Rightarrow> u32 \<Rightarrow> bool \<times> ctx" where
  "drive_eop0 c d2p = (False, c\<lparr>c_driving := set_driving c d2p 0 True, c_state := ST_EOP\<rparr>)"

definition drive_eop :: "ctx \<Rightarrow> u32 \<Rightarrow> (bool \<times> ctx) res" where
  "drive_eop c d2p =
     (let c = (if c_bit c = 2 then c\<lparr>c_driving := set_driving c d2p P2D_DP True\<rparr> else c) in
      if c_bit c = 4 then
        bnd (cassert ''sending'' (c_sending c \<noteq> None)) (\<lambda>_.
        let c = c\<lparr>c_driving := set_driving c d2p (if has d2p D2P_PU then P2D_DP else 0) False\<rparr> in
        bnd (get_tr c (c_sending c)) (\<lambda>t.
          Inr (False, if c_byte c = unat (t_data_start t)
                      then c\<lparr>c_bit := 1, c_state := ST_SYNC\<rparr> else c\<lparr>c_state := ST_IDLE\<rparr>)))
      else Inr (False, c\<lparr>c_bit := push_bit 1 (c_bit c)\<rparr>))"

definition host_drive :: "ctx \<Rightarrow> u32 \<Rightarrow> (bool \<times> ctx) res" where
  "host_drive c d2p =
     (case c_state c of
        ST_IDLE \<Rightarrow> bnd (host_step c d2p) (\<lambda>c. Inr (False, c))
      | ST_SYNC \<Rightarrow> Inr (drive_sync c d2p)
      | ST_SEND \<Rightarrow> drive_send c d2p
      | ST_EOP0 \<Rightarrow> Inr (drive_eop0 c d2p)
      | ST_EOP \<Rightarrow> drive_eop c d2p
      | ST_GET \<Rightarrow> Inr (False, c))"

definition p2d_message :: "ctx \<Rightarrow> string" where
  "p2d_message c =
     ''0x'' @ hex_left 3 (c_frame c) @ '' 0x-'' @ pad_left 8 CHR '' '' (hex (c_tick_bits c))
       @ ''              '' @ (if has (c_driving c) P2D_SENSE then ''VBUS'' else ''    '')
       @ '' '' @ (if c_state c \<noteq> ST_IDLE
                  then decode_usb (has (c_driving c) P2D_DP) (has (c_driving c) P2D_DN) else ''ZZ '')
       @ '' '' @ (if has (c_driving c) P2D_D then ''1'' else ''0'') @ nl"

text \<open>The call of the monitor, with the host model as its client.\<close>

definition host_monitor :: "ctx \<Rightarrow> u32 \<Rightarrow> ctx res" where
  "host_monitor c d2p =
     bnd (usb_monitor (Some usbdpi_data_callback) (\<lambda>pid c. c\<lparr>c_lastrxpid := pid\<rparr>) (c_mon c)
            (c_loglevel c) (c_tick_bits c) (c_state c \<noteq> ST_IDLE \<and> c_state c \<noteq> ST_GET)
            (c_driving c) d2p c) (\<lambda>(mon, c). Inr (c\<lparr>c_mon := Some mon\<rparr>))"

text \<open>
  The rest of a bit interval, after the monitor: the device may be absent or recovering;
  otherwise the frame timer, the driver and the bit-level log follow.
\<close>

definition host_active :: "ctx \<Rightarrow> u32 \<Rightarrow> u32 \<Rightarrow> ctx res" where
  "host_active c d2p last_driving =
     bnd (host_frame c) (\<lambda>c.
     bnd (host_drive c d2p) (\<lambda>(force_stat, c).
       if has (c_loglevel c) LOG_BIT \<and> (force_stat \<or> c_driving c \<noteq> last_driving)
       then ctx_log c (p2d_message c) else Inr c))"

definition host_bit :: "ctx \<Rightarrow> u32 \<Rightarrow> u32 \<Rightarrow> ctx res" where
  "host_bit c d2p last_driving =
     (let c = (if c_tick_bits c = SENSE_AT then c\<lparr>c_driving := c_driving c OR P2D_SENSE\<rparr> else c) in
      if d2p AND D2P_PU = 0 then
        let c = bus_reset c in Inr (c\<lparr>c_recovery_time := c_tick c + 4 * 48\<rparr>)
      else if c_tick c < c_recovery_time c then
        let c = c\<lparr>c_driving := set_driving c d2p P2D_DP False\<rparr>
        in Inr (c\<lparr>c_state := ST_IDLE, c_frame_start := c_tick_bits c\<rparr>)
      else host_active c d2p last_driving)"

text \<open>The value returned is the low byte of \<open>driving\<close>.\<close>

definition usbdpi_host_to_device :: "ctx \<Rightarrow> u32 \<Rightarrow> (u8 \<times> ctx) res" where
  "usbdpi_host_to_device c d2p =
     (let last_driving = c_driving c;
          c = c\<lparr>c_tick := c_tick c + 1\<rparr>;
          c = c\<lparr>c_tick_bits := drop_bit 2 (c_tick c)\<rparr> in
      if has (c_tick c) 3 then Inr (to_u8 (c_driving c), c)
      else
        bnd (host_monitor c d2p) (\<lambda>c.
        bnd (host_bit c d2p last_driving) (\<lambda>c.
          Inr (to_u8 (c_driving c), c))))"

section \<open>Diagnostics and closing\<close>

text \<open>The words \<open>diags[0]\<close>, \<open>diags[1]\<close> and \<open>diags[2]\<close>.\<close>

definition usbdpi_diags :: "ctx \<Rightarrow> u32 list res" where
  "usbdpi_diags c =
     bnd (cassert ''state <= 0xfU'' (drv_state_code (c_state c) \<le> 0xf)) (\<lambda>_.
     bnd (cassert ''hostSt <= 0x1fU'' (host_state_code (c_hostSt c) \<le> 0x1f)) (\<lambda>_.
     bnd (cassert ''bus_state <= 0x3fU'' (bus_state_code (c_bus_state c) \<le> 0x3f)) (\<lambda>_.
     bnd (cassert ''step <= 0x7fU'' (c_step c \<le> 0x7f)) (\<lambda>_.
     bnd (usb_monitor_diags (c_mon c)) (\<lambda>m.
       Inr [push_bit 20 (c_tick_bits c) OR push_bit 9 (to_u32 (c_frame c) AND 0x7ff)
              OR push_bit 4 (host_state_code (c_hostSt c) AND 0x1f)
              OR (drv_state_code (c_state c) AND 0xf),
            push_bit 25 (c_step c) OR push_bit 20 (bus_state_code (c_bus_state c))
              OR drop_bit 12 (c_tick_bits c),
            m])))))"

text \<open>Closing the model closes the log, whose content is the result.\<close>

definition usb_monitor_fin :: "monitor option \<Rightarrow> string list res" where
  "usb_monitor_fin mon = bnd (nonnull mon) (\<lambda>mon. Inr (m_file mon))"

definition usbdpi_close :: "ctx option \<Rightarrow> string list res" where
  "usbdpi_close c = (case c of None \<Rightarrow> Inr [] | Some c \<Rightarrow> usb_monitor_fin (c_mon c))"

end
