(* ===== verification/Pool.thy ===== *)
theory Pool
  imports Host
begin

text \<open>
  Ownership of the transfer descriptors.  A list of descriptors linked through \<open>t_next\<close> is
  abstracted to the list of its indices; \<open>pool_ok\<close> says that the free list and the streams'
  queues are such lists, that no descriptor is in two places and that the descriptors held
  outside the lists, the one being sent and the one being received among them, are in none
  of them.
\<close>

section \<open>Linked lists of descriptors\<close>

fun lseg :: "transfer list \<Rightarrow> nat option \<Rightarrow> nat list \<Rightarrow> bool" where
  "lseg pool p [] \<longleftrightarrow> p = None"
| "lseg pool p (i # is) \<longleftrightarrow> p = Some i \<and> i < length pool \<and> lseg pool (t_next (pool ! i)) is"

lemma lseg_None [simp]: "lseg pool None is \<longleftrightarrow> is = []"
  by (cases "is") auto

lemma lseg_Some:
  "lseg pool (Some i) is \<longleftrightarrow>
     (\<exists>js. is = i # js \<and> i < length pool \<and> lseg pool (t_next (pool ! i)) js)"
  by (cases "is") auto

lemma lseg_upd [simp]: "i \<notin> set is \<Longrightarrow> lseg (pool[i := t]) p is \<longleftrightarrow> lseg pool p is"
  by (induction "is" arbitrary: p) auto

lemma lseg_same_next:
  assumes "t_next t = t_next (pool ! i)"
  shows "lseg (pool[i := t]) p is \<longleftrightarrow> lseg pool p is"
proof (induction "is" arbitrary: p)
  case (Cons j js)
  have "j < length pool \<Longrightarrow> t_next (pool[i := t] ! j) = t_next (pool ! j)"
    using assms by (cases "i = j") simp_all
  then show ?case by (auto simp: Cons.IH)
qed simp

lemma lseg_unique: "lseg pool p is \<Longrightarrow> lseg pool p js \<Longrightarrow> is = js"
  by (induction "is" arbitrary: p js) (auto simp: lseg_Some)

lemma lseg_bounds: "lseg pool p is \<Longrightarrow> set is \<subseteq> {..<length pool}"
  by (induction "is" arbitrary: p) auto

lemma lseg_length: "lseg pool p is \<Longrightarrow> distinct is \<Longrightarrow> length is \<le> length pool"
  using lseg_bounds [of pool p "is"] card_mono [of "{..<length pool}" "set is"]
  by (simp add: distinct_card)

text \<open>Linking a descriptor behind the last one of a list.\<close>

lemma lseg_link:
  "lseg pool p (is @ [j]) \<Longrightarrow> distinct (is @ [j]) \<Longrightarrow> i \<notin> set (is @ [j]) \<Longrightarrow> i < length pool \<Longrightarrow>
   t_next (pool ! i) = None \<Longrightarrow> lseg (pool[j := (pool ! j)\<lparr>t_next := Some i\<rparr>]) p (is @ [j, i])"
  by (induction "is" arbitrary: p) auto

lemma lseg_last_None: "lseg pool p (is @ [j]) \<Longrightarrow> t_next (pool ! j) = None"
  by (induction "is" arbitrary: p) auto

section \<open>Ownership\<close>

definition pool_ok :: "transfer list \<Rightarrow> nat option \<Rightarrow> nat option list \<Rightarrow> nat set \<Rightarrow> bool" where
  "pool_ok pool free qs H \<longleftrightarrow>
     length pool = USBDPI_MAX_TRANSFERS \<and> list_all wf_transfer pool \<and> H \<subseteq> {..<USBDPI_MAX_TRANSFERS} \<and>
     (\<exists>fl ls. lseg pool free fl \<and> list_all2 (lseg pool) qs ls \<and> distinct (fl @ concat ls)
              \<and> H \<inter> set (fl @ concat ls) = {})"

lemma pool_okI:
  "length pool = 32 \<Longrightarrow> list_all wf_transfer pool \<Longrightarrow> H \<subseteq> {..<32} \<Longrightarrow> lseg pool free fl \<Longrightarrow>
   list_all2 (lseg pool) qs ls \<Longrightarrow> distinct (fl @ concat ls) \<Longrightarrow> H \<inter> set (fl @ concat ls) = {} \<Longrightarrow>
   pool_ok pool free qs H"
  unfolding pool_ok_def by auto

lemma pool_okE:
  assumes "pool_ok pool free qs H"
  obtains fl ls where "length pool = 32" "list_all wf_transfer pool" "H \<subseteq> {..<32}"
    "lseg pool free fl" "list_all2 (lseg pool) qs ls" "distinct (fl @ concat ls)"
    "H \<inter> set (fl @ concat ls) = {}"
  using assms unfolding pool_ok_def by auto

lemma pool_ok_wf: "pool_ok pool free qs H \<Longrightarrow> i < 32 \<Longrightarrow> wf_transfer (pool ! i)"
  by (auto simp: pool_ok_def list_all_length)

lemma pool_ok_held: "pool_ok pool free qs H \<Longrightarrow> i \<in> H \<Longrightarrow> i < 32"
  by (auto simp: pool_ok_def)

lemma pool_ok_length: "pool_ok pool free qs H \<Longrightarrow> length pool = 32"
  by (simp add: pool_ok_def)

lemma pool_ok_mono: "pool_ok pool free qs H \<Longrightarrow> G \<subseteq> H \<Longrightarrow> pool_ok pool free qs G"
  by (erule pool_okE, rule pool_okI) (assumption | blast)+

lemma list_all2_lseg_upd:
  "i \<notin> set (concat ls) \<Longrightarrow> list_all2 (lseg (pool[i := t])) qs ls \<longleftrightarrow> list_all2 (lseg pool) qs ls"
  by (induction qs ls rule: list_induct2') auto

lemma list_all_update: "list_all P xs \<Longrightarrow> P x \<Longrightarrow> list_all P (xs[i := x])"
  by (auto simp: list_all_iff dest: set_update_subset_insert [THEN subsetD])

text \<open>A held descriptor can be written at will.\<close>

lemma pool_ok_write:
  assumes "pool_ok pool free qs H" "i \<in> H" "wf_transfer t"
  shows "pool_ok (pool[i := t]) free qs H"
proof -
  obtain fl ls where 1: "length pool = 32" "list_all wf_transfer pool" "H \<subseteq> {..<32}"
    "lseg pool free fl" "list_all2 (lseg pool) qs ls" "distinct (fl @ concat ls)"
    "H \<inter> set (fl @ concat ls) = {}"
    using assms(1) by (rule pool_okE)
  then have "i \<notin> set fl" "i \<notin> set (concat ls)" using assms(2) by auto
  then show ?thesis
    using 1 assms(3) by (intro pool_okI [where fl = fl and ls = ls])
      (auto simp: list_all2_lseg_upd list_all_update)
qed

text \<open>Taking the head of the free list, and putting a held descriptor in front of it.\<close>

lemma pool_ok_take:
  assumes "pool_ok pool (Some i) qs H"
  shows "i < 32 \<and> i \<notin> H \<and> pool_ok pool (t_next (pool ! i)) qs (insert i H)"
proof -
  obtain fl ls where 1: "length pool = 32" "list_all wf_transfer pool" "H \<subseteq> {..<32}"
    "lseg pool (Some i) fl" "list_all2 (lseg pool) qs ls" "distinct (fl @ concat ls)"
    "H \<inter> set (fl @ concat ls) = {}"
    using assms by (rule pool_okE)
  then obtain js where fl: "fl = i # js" "i < 32" "lseg pool (t_next (pool ! i)) js"
    by (auto simp: lseg_Some)
  then have "pool_ok pool (t_next (pool ! i)) qs (insert i H)"
    using 1 by (intro pool_okI [where fl = js and ls = ls]) auto
  with 1 fl show ?thesis by auto
qed

lemma pool_ok_put:
  assumes "pool_ok pool free qs H" "i \<in> H"
  shows "pool_ok (pool[i := (pool ! i)\<lparr>t_next := free\<rparr>]) (Some i) qs (H - {i})"
proof -
  obtain fl ls where 1: "length pool = 32" "list_all wf_transfer pool" "H \<subseteq> {..<32}"
    "lseg pool free fl" "list_all2 (lseg pool) qs ls" "distinct (fl @ concat ls)"
    "H \<inter> set (fl @ concat ls) = {}"
    using assms(1) by (rule pool_okE)
  then have i: "i \<notin> set fl" "i \<notin> set (concat ls)" "i < 32" using assms(2) by auto
  then have "wf_transfer (pool ! i)" using 1 by (simp add: list_all_length)
  with i 1 show ?thesis
    by (intro pool_okI [where fl = "i # fl" and ls = ls])
      (auto simp: list_all2_lseg_upd list_all_update)
qed

text \<open>Taking the head of a queue, and appending a held descriptor to one.\<close>

lemma list_all2_nthE:
  assumes "list_all2 P qs ls" "k < length qs"
  obtains q1 q2 l1 l2 where "qs = q1 @ qs ! k # q2" "ls = l1 @ ls ! k # l2"
    "length q1 = k" "length l1 = k" "list_all2 P q1 l1" "list_all2 P q2 l2" "P (qs ! k) (ls ! k)"
proof
  have k: "k < length ls" using assms by (simp add: list_all2_lengthD)
  show "qs = take k qs @ qs ! k # drop (Suc k) qs" using assms(2) by (rule id_take_nth_drop)
  show "ls = take k ls @ ls ! k # drop (Suc k) ls" using k by (rule id_take_nth_drop)
qed (use assms in \<open>auto simp: list_all2_lengthD [symmetric] list_all2_takeI list_all2_dropI
       intro: list_all2_nthD\<close>)

lemma pool_ok_pop:
  assumes "pool_ok pool free qs H" "k < length qs" "qs ! k = Some i"
  shows "i < 32 \<and> i \<notin> H \<and> pool_ok pool free (qs[k := t_next (pool ! i)]) (insert i H)"
proof -
  obtain fl ls where 1: "length pool = 32" "list_all wf_transfer pool" "H \<subseteq> {..<32}"
    "lseg pool free fl" "list_all2 (lseg pool) qs ls" "distinct (fl @ concat ls)"
    "H \<inter> set (fl @ concat ls) = {}"
    using assms(1) by (rule pool_okE)
  obtain q1 q2 l1 l2 where 2: "qs = q1 @ qs ! k # q2" "ls = l1 @ ls ! k # l2"
    "length q1 = k" "length l1 = k" "list_all2 (lseg pool) q1 l1" "list_all2 (lseg pool) q2 l2"
    "lseg pool (qs ! k) (ls ! k)"
    using 1(5) assms(2) by (rule list_all2_nthE)
  obtain js where 3: "ls ! k = i # js" "i < 32" "lseg pool (t_next (pool ! i)) js"
    using 2(7) assms(3) 1(1) by (auto simp: lseg_Some)
  have qs: "qs[k := t_next (pool ! i)] = q1 @ t_next (pool ! i) # q2"
    by (subst 2(1)) (simp add: 2(3) [symmetric])
  have ls: "ls = l1 @ (i # js) # l2" using 2(2) 3(1) by simp
  have "pool_ok pool free (qs[k := t_next (pool ! i)]) (insert i H)"
    unfolding qs using 1 2(5,6) 3(2,3) ls
    by (intro pool_okI [where fl = fl and ls = "l1 @ js # l2"]) (auto intro: list_all2_appendI)
  moreover have "i \<notin> H" using 1(7) ls by auto
  ultimately show ?thesis using 3(2) by simp
qed

lemma pool_ok_drop:
  assumes "pool_ok pool free qs H" "k < length qs"
  shows "pool_ok pool free (qs[k := None]) H"
proof -
  obtain fl ls where 1: "length pool = 32" "list_all wf_transfer pool" "H \<subseteq> {..<32}"
    "lseg pool free fl" "list_all2 (lseg pool) qs ls" "distinct (fl @ concat ls)"
    "H \<inter> set (fl @ concat ls) = {}"
    using assms(1) by (rule pool_okE)
  obtain q1 q2 l1 l2 where 2: "qs = q1 @ qs ! k # q2" "ls = l1 @ ls ! k # l2"
    "length q1 = k" "length l1 = k" "list_all2 (lseg pool) q1 l1" "list_all2 (lseg pool) q2 l2"
    "lseg pool (qs ! k) (ls ! k)"
    using 1(5) assms(2) by (rule list_all2_nthE)
  have qs: "qs[k := None] = q1 @ None # q2" by (subst 2(1)) (simp add: 2(3) [symmetric])
  obtain l where ls: "ls = l1 @ l # l2" using 2(2) by blast
  have "list_all2 (lseg pool) (q1 @ None # q2) (l1 @ [] # l2)"
    using 2(5,6) by (intro list_all2_appendI) simp_all
  moreover have "distinct (fl @ concat (l1 @ [] # l2))" "H \<inter> set (fl @ concat (l1 @ [] # l2)) = {}"
    using 1(6,7) unfolding ls by auto
  ultimately show ?thesis
    unfolding qs using 1(1-4) by (intro pool_okI [where fl = fl and ls = "l1 @ [] # l2"])
qed

lemma pool_ok_push_empty:
  assumes "pool_ok pool free qs H" "k < length qs" "qs ! k = None" "i \<in> H" "t_next (pool ! i) = None"
  shows "pool_ok pool free (qs[k := Some i]) (H - {i})"
proof -
  obtain fl ls where 1: "length pool = 32" "list_all wf_transfer pool" "H \<subseteq> {..<32}"
    "lseg pool free fl" "list_all2 (lseg pool) qs ls" "distinct (fl @ concat ls)"
    "H \<inter> set (fl @ concat ls) = {}"
    using assms(1) by (rule pool_okE)
  obtain q1 q2 l1 l2 where 2: "qs = q1 @ qs ! k # q2" "ls = l1 @ ls ! k # l2"
    "length q1 = k" "length l1 = k" "list_all2 (lseg pool) q1 l1" "list_all2 (lseg pool) q2 l2"
    "lseg pool (qs ! k) (ls ! k)"
    using 1(5) assms(2) by (rule list_all2_nthE)
  have qs: "qs[k := Some i] = q1 @ Some i # q2" by (subst 2(1)) (simp add: 2(3) [symmetric])
  have "ls ! k = []" using 2(7) assms(3) by simp
  then have ls: "ls = l1 @ [] # l2" using 2(2) by simp
  have i: "i < length pool" using assms(4) 1(1,3) by auto
  show ?thesis
    unfolding qs using 1 2(5,6) assms(4,5) ls i
    by (intro pool_okI [where fl = fl and ls = "l1 @ [i] # l2"]) (auto intro: list_all2_appendI)
qed

lemma pool_ok_link:
  assumes "pool_ok pool free qs H" "k < length qs" "qs ! k = Some h"
    and "lseg pool (Some h) (js @ [j])" "i \<in> H" "t_next (pool ! i) = None"
  shows "pool_ok (pool[j := (pool ! j)\<lparr>t_next := Some i\<rparr>]) free qs (H - {i})"
proof -
  let ?p = "pool[j := (pool ! j)\<lparr>t_next := Some i\<rparr>]"
  obtain fl ls where 1: "length pool = 32" "list_all wf_transfer pool" "H \<subseteq> {..<32}"
    "lseg pool free fl" "list_all2 (lseg pool) qs ls" "distinct (fl @ concat ls)"
    "H \<inter> set (fl @ concat ls) = {}"
    using assms(1) by (rule pool_okE)
  obtain q1 q2 l1 l2 where 2: "qs = q1 @ qs ! k # q2" "ls = l1 @ ls ! k # l2"
    "length q1 = k" "length l1 = k" "list_all2 (lseg pool) q1 l1" "list_all2 (lseg pool) q2 l2"
    "lseg pool (qs ! k) (ls ! k)"
    using 1(5) assms(2) by (rule list_all2_nthE)
  have "ls ! k = js @ [j]"
    using 2(7) assms(3,4) by (auto intro: lseg_unique)
  then have ls: "ls = l1 @ (js @ [j]) # l2" using 2(2) by simp
  have i: "i < length pool" using assms(5) 1(1,3) by auto
  have j: "j \<notin> set fl" "j \<notin> set (concat l1)" "j \<notin> set (concat l2)" "j < 32"
    using 1(1,6) ls lseg_bounds [OF assms(4)] by auto
  have "lseg ?p (Some h) (js @ [j, i])"
    using 1(6,7) assms(4,5,6) ls i by (intro lseg_link) auto
  then have "list_all2 (lseg ?p) (q1 @ Some h # q2) (l1 @ (js @ [j, i]) # l2)"
    using 2(5,6) j by (intro list_all2_appendI) (simp_all add: list_all2_lseg_upd)
  then have "list_all2 (lseg ?p) qs (l1 @ (js @ [j, i]) # l2)"
    using 2(1) assms(3) by simp
  moreover have "list_all wf_transfer ?p"
    using 1(1,2) j(4) by (intro list_all_update) (auto simp: list_all_length)
  ultimately show ?thesis
    using 1 assms(5) j(1) ls i by (intro pool_okI [where fl = fl and ls = "l1 @ (js @ [j, i]) # l2"]) auto
qed

section \<open>The operations of the pool\<close>

abbreviation stream_queues :: "stream list \<Rightarrow> nat option list" where
  "stream_queues ss \<equiv> map s_received ss"

definition owns :: "ctx \<Rightarrow> nat set \<Rightarrow> bool" where
  "owns c H \<longleftrightarrow> pool_ok (c_pool c) (c_free c) (stream_queues (c_stream c)) H"

lemma owns_held: "owns c H \<Longrightarrow> i \<in> H \<Longrightarrow> i < 32"
  by (simp add: owns_def pool_ok_held)

lemma owns_length: "owns c H \<Longrightarrow> length (c_pool c) = 32"
  by (simp add: owns_def pool_ok_length)

lemma owns_wf: "owns c H \<Longrightarrow> i < 32 \<Longrightarrow> wf_transfer (c_pool c ! i)"
  by (simp add: owns_def pool_ok_wf)

lemma owns_mono: "owns c H \<Longrightarrow> G \<subseteq> H \<Longrightarrow> owns c G"
  unfolding owns_def by (rule pool_ok_mono)

lemma owns_write:
  "owns c H \<Longrightarrow> i \<in> H \<Longrightarrow> wf_transfer t \<Longrightarrow> owns (c\<lparr>c_pool := (c_pool c)[i := t]\<rparr>) H"
  by (simp add: owns_def pool_ok_write)

lemma get_tr_Some: "i < length (c_pool c) \<Longrightarrow> get_tr c (Some i) = Inr (c_pool c ! i)"
  by (simp add: get_tr_def)

lemma upd_tr_Some:
  "i < length (c_pool c) \<Longrightarrow>
   upd_tr c (Some i) f = bnd (f (c_pool c ! i)) (\<lambda>t. Inr (c\<lparr>c_pool := (c_pool c)[i := t]\<rparr>))"
  by (simp add: upd_tr_def)

text \<open>
  Allocation either fails, when the free list is empty, or yields an initialised
  descriptor that nobody holds; it changes nothing but the pool and the free list.
\<close>

lemma transfer_alloc_spec:
  assumes "owns c H"
  shows "c_free c = None \<and> transfer_alloc c = Inr (None, c) \<or>
    (\<exists>i c'. c_free c = Some i \<and> transfer_alloc c = Inr (Some i, c') \<and> i < 32 \<and> i \<notin> H
      \<and> c' = c\<lparr>c_free := t_next (c_pool c ! i), c_pool := (c_pool c)[i := transfer_init (c_pool c ! i)]\<rparr>
      \<and> owns c' (insert i H))"
proof (cases "c_free c")
  case (Some i)
  have 1: "i < 32" "i \<notin> H" "owns (c\<lparr>c_free := t_next (c_pool c ! i)\<rparr>) (insert i H)"
    using pool_ok_take [of "c_pool c" i "stream_queues (c_stream c)" H] assms Some
    by (simp_all add: owns_def)
  then have "owns (c\<lparr>c_free := t_next (c_pool c ! i),
      c_pool := (c_pool c)[i := transfer_init (c_pool c ! i)]\<rparr>) (insert i H)"
    using owns_write [OF 1(3), of i "transfer_init (c_pool c ! i)"] owns_wf [OF assms 1(1)] by simp
  then show ?thesis
    using Some 1 owns_length [OF assms] by (simp add: transfer_alloc_def)
qed (simp add: transfer_alloc_def)

lemma transfer_release_eq:
  "i < length (c_pool c) \<Longrightarrow> transfer_release c (Some i) =
     Inr (c\<lparr>c_pool := (c_pool c)[i := (c_pool c ! i)\<lparr>t_next := c_free c\<rparr>], c_free := Some i\<rparr>)"
  by (simp add: transfer_release_def upd_tr_Some)

lemma owns_release:
  "owns c H \<Longrightarrow> i \<in> H \<Longrightarrow>
   owns (c\<lparr>c_pool := (c_pool c)[i := (c_pool c ! i)\<lparr>t_next := c_free c\<rparr>], c_free := Some i\<rparr>) (H - {i})"
  unfolding owns_def using pool_ok_put [of "c_pool c" "c_free c" _ H i] by simp

section \<open>The operations of the queues\<close>

lemma map_s_received_upd:
  "k < length ss \<Longrightarrow> stream_queues (ss[k := f (ss ! k)]) = (stream_queues ss)[k := s_received (f (ss ! k))]"
  by (simp add: map_update)

lemma stream_queues_same:
  assumes "s_received s = s_received (ss ! k)"
  shows "stream_queues (ss[k := s]) = stream_queues ss"
proof -
  have "stream_queues (ss[k := s]) = stream_queues (ss[k := ss ! k])"
    by (simp only: map_update assms)
  then show ?thesis by (simp only: list_update_id)
qed

lemma owns_upd_stream:
  "(\<And>s. s_received (f s) = s_received s) \<Longrightarrow> owns (upd_stream c k f) H = owns c H"
  by (simp add: owns_def upd_stream_def stream_queues_same)

lemma owns_pop:
  assumes "owns c H" "k < length (c_stream c)" "s_received (c_stream c ! k) = Some i"
  shows "i < 32 \<and> i \<notin> H \<and>
    owns (upd_stream c k (\<lambda>s. s\<lparr>s_received := t_next (c_pool c ! i)\<rparr>)) (insert i H)"
  using pool_ok_pop [of "c_pool c" "c_free c" "stream_queues (c_stream c)" H k i] assms
  by (simp add: owns_def upd_stream_def map_update)

declare queue_last.simps [simp del] discard_received.simps [simp del]

text \<open>The walk to the end of a queue ends within the fuel, at its last descriptor.\<close>

lemma queue_last_lseg:
  "lseg (c_pool c) (Some i) (js @ [j]) \<Longrightarrow> length js \<le> n \<Longrightarrow> queue_last n c i = Inr j"
proof (induction js arbitrary: i n)
  case Nil
  then show ?case by (simp add: get_tr_Some queue_last.simps [of n])
next
  case (Cons k js)
  then obtain m where n: "n = Suc m" "length js \<le> m" by (cases n) auto
  obtain l where l: "t_next (c_pool c ! i) = Some l"
    using Cons.prems(1) by (cases js) auto
  then show ?case
    using Cons.prems(1) Cons.IH [of l m] n by (simp add: get_tr_Some queue_last.simps [of "Suc m"])
qed

lemma queue_append_spec:
  assumes "owns c H" "k < length (c_stream c)" "i \<in> H" "t_next (c_pool c ! i) = None"
  shows "\<exists>p ss. queue_append c k (Some i) = Inr (c\<lparr>c_pool := p, c_stream := ss\<rparr>)
    \<and> owns (c\<lparr>c_pool := p, c_stream := ss\<rparr>) (H - {i})
    \<and> (ss = c_stream c \<or> ss = (c_stream c)[k := (c_stream c ! k)\<lparr>s_received := Some i\<rparr>])
    \<and> (\<forall>h \<in> H. p ! h = c_pool c ! h)"
proof (cases "s_received (c_stream c ! k)")
  case None
  then show ?thesis
    using pool_ok_push_empty [of "c_pool c" "c_free c" "stream_queues (c_stream c)" H k i] assms
    by (intro exI [of _ "c_pool c"]
        exI [of _ "(c_stream c)[k := (c_stream c ! k)\<lparr>s_received := Some i\<rparr>]"])
      (simp add: queue_append_def owns_def upd_stream_def map_update)
next
  case (Some h)
  obtain fl ls where 1: "length (c_pool c) = 32" "lseg (c_pool c) (c_free c) fl"
    "list_all2 (lseg (c_pool c)) (stream_queues (c_stream c)) ls" "distinct (fl @ concat ls)"
    "H \<inter> set (fl @ concat ls) = {}"
    using assms(1) unfolding owns_def by (rule pool_okE)
  have l: "lseg (c_pool c) (Some h) (ls ! k)" "k < length ls"
    using list_all2_nthD [OF 1(3), of k] assms(2) Some list_all2_lengthD [OF 1(3)] by simp_all
  then obtain js j where js: "ls ! k = js @ [j]"
    by (cases "ls ! k" rule: rev_cases) auto
  have k: "set (ls ! k) \<subseteq> set (concat ls)" using nth_mem [OF l(2)] by auto
  then have j: "j \<notin> H" using 1(5) js by auto
  have "distinct (ls ! k)" using 1(4) l(2) by (auto simp: distinct_concat_iff)
  then have "length js \<le> 32" using lseg_length [OF l(1)] 1(1) js by simp
  then have "queue_last 32 c h = Inr j"
    using l(1) js by (intro queue_last_lseg) simp
  moreover have "j < 32" using lseg_bounds [OF l(1)] js 1(1) by auto
  moreover have "owns (c\<lparr>c_pool := (c_pool c)[j := (c_pool c ! j)\<lparr>t_next := Some i\<rparr>]\<rparr>) (H - {i})"
    using pool_ok_link [of "c_pool c" "c_free c" "stream_queues (c_stream c)" H k h js j i] assms Some l js
    by (simp add: owns_def)
  ultimately show ?thesis
    using Some assms(2) 1(1) j
    by (intro exI [of _ "(c_pool c)[j := (c_pool c ! j)\<lparr>t_next := Some i\<rparr>]"] exI [of _ "c_stream c"])
      (auto simp: queue_append_def upd_tr_Some nth_list_update)
qed

lemma owns_queue:
  assumes "owns c H" "k < length (c_stream c)"
  obtains js where "lseg (c_pool c) (s_received (c_stream c ! k)) js" "distinct js"
    "length js \<le> 32" "H \<inter> set js = {}"
proof -
  obtain fl ls where 1: "length (c_pool c) = 32" "lseg (c_pool c) (c_free c) fl"
    "list_all2 (lseg (c_pool c)) (stream_queues (c_stream c)) ls" "distinct (fl @ concat ls)"
    "H \<inter> set (fl @ concat ls) = {}"
    using assms(1) unfolding owns_def by (rule pool_okE)
  have l: "lseg (c_pool c) (s_received (c_stream c ! k)) (ls ! k)" "k < length ls"
    using list_all2_nthD [OF 1(3), of k] assms(2) list_all2_lengthD [OF 1(3)] by simp_all
  have "distinct (ls ! k)" using 1(4) l(2) by (auto simp: distinct_concat_iff)
  moreover have "set (ls ! k) \<subseteq> set (concat ls)" using nth_mem [OF l(2)] by auto
  then have "H \<inter> set (ls ! k) = {}" using 1(5) by auto
  ultimately show thesis
    using that [OF l(1)] lseg_length [OF l(1)] 1(1) by simp
qed

lemma upd_stream_sel [simp]:
  "c_pool (upd_stream c k f) = c_pool c" "c_free (upd_stream c k f) = c_free c"
  "length (c_stream (upd_stream c k f)) = length (c_stream c)"
  "k < length (c_stream c) \<Longrightarrow> c_stream (upd_stream c k f) ! k = f (c_stream c ! k)"
  by (simp_all add: upd_stream_def)

text \<open>Discarding a queue empties it and leaves the held descriptors alone.\<close>

lemma discard_received_spec:
  assumes "owns c H" "k < length (c_stream c)"
    and "lseg (c_pool c) (s_received (c_stream c ! k)) js" "distinct js" "length js \<le> n"
  shows "\<exists>p f. discard_received n c k = Inr (upd_stream c k (\<lambda>s. s\<lparr>s_received := None\<rparr>)\<lparr>c_pool := p, c_free := f\<rparr>)
    \<and> owns (upd_stream c k (\<lambda>s. s\<lparr>s_received := None\<rparr>)\<lparr>c_pool := p, c_free := f\<rparr>) H
    \<and> (\<forall>h \<in> H. p ! h = c_pool c ! h)"
  using assms
proof (induction js arbitrary: c n)
  case Nil
  have "(c_stream c ! k)\<lparr>s_received := None\<rparr> = c_stream c ! k"
    using Nil(3) by (cases "c_stream c ! k") simp
  then have "upd_stream c k (\<lambda>s. s\<lparr>s_received := None\<rparr>) = c"
    by (simp add: upd_stream_def)
  then show ?case
    using Nil by (intro exI [of _ "c_pool c"] exI [of _ "c_free c"])
      (simp add: discard_received.simps [of n])
next
  case (Cons i js)
  obtain m where n: "n = Suc m" "length js \<le> m" using Cons.prems(5) by (cases n) auto
  have i: "s_received (c_stream c ! k) = Some i" "i < length (c_pool c)"
    "lseg (c_pool c) (t_next (c_pool c ! i)) js" "i \<notin> set js"
    using Cons.prems(3,4) by auto
  define c1 where "c1 = upd_stream c k (\<lambda>s. s\<lparr>s_received := t_next (c_pool c ! i)\<rparr>)"
  define c2 where
    "c2 = c1\<lparr>c_pool := (c_pool c1)[i := (c_pool c1 ! i)\<lparr>t_next := c_free c1\<rparr>], c_free := Some i\<rparr>"
  have 1: "i \<notin> H" "owns c1 (insert i H)"
    using owns_pop [OF Cons.prems(1,2) i(1)] by (simp_all add: c1_def)
  have "owns c2 (insert i H - {i})"
    unfolding c2_def using 1(2) by (rule owns_release) simp
  then have 2: "owns c2 H" using 1(1) by simp
  have 3: "k < length (c_stream c2)" "lseg (c_pool c2) (s_received (c_stream c2 ! k)) js"
    using i(3,4) Cons.prems(2) by (simp_all add: c2_def c1_def)
  obtain p f where 4: "discard_received m c2 k =
      Inr (upd_stream c2 k (\<lambda>s. s\<lparr>s_received := None\<rparr>)\<lparr>c_pool := p, c_free := f\<rparr>)"
    "owns (upd_stream c2 k (\<lambda>s. s\<lparr>s_received := None\<rparr>)\<lparr>c_pool := p, c_free := f\<rparr>) H"
    "\<forall>h \<in> H. p ! h = c_pool c2 ! h"
    using Cons.IH [OF 2 3 _ n(2)] Cons.prems(4) by auto
  have 5: "upd_stream c2 k (\<lambda>s. s\<lparr>s_received := None\<rparr>)\<lparr>c_pool := p, c_free := f\<rparr> =
      upd_stream c k (\<lambda>s. s\<lparr>s_received := None\<rparr>)\<lparr>c_pool := p, c_free := f\<rparr>"
    using Cons.prems(2) by (simp add: c2_def c1_def upd_stream_def)
  have "transfer_release c1 (Some i) = Inr c2"
    using i(2) by (simp add: c1_def c2_def transfer_release_eq)
  then have "discard_received n c k = discard_received m c2 k"
    using i n(1) Cons.prems(2) by (simp add: discard_received.simps [of "Suc m"] get_tr_Some c1_def)
  moreover have "c_pool c2 ! h = c_pool c ! h" if "h \<in> H" for h
    using that 1(1) by (cases "i = h") (simp_all add: c2_def c1_def)
  ultimately show ?case
    using 4 5 by (intro exI [of _ p] exI [of _ f]) simp
qed

section \<open>Setting up the pool\<close>

lemma transfer_setup_loop_spec:
  assumes "n \<le> length pool" "lseg pool nxt [n..<m]" "m = length pool"
    "transfer_setup_loop n nxt pool = (pool', nxt')"
  shows "lseg pool' nxt' [0..<m] \<and> length pool' = length pool
    \<and> (\<forall>i < length pool. t_data (pool' ! i) = t_data (pool ! i) \<and> t_num_bytes (pool' ! i) = t_num_bytes (pool ! i))"
  using assms
proof (induction n arbitrary: nxt pool)
  case (Suc n)
  let ?p = "pool[n := (pool ! n)\<lparr>t_next := nxt\<rparr>]"
  have "lseg ?p (Some n) [n..<m]"
    using Suc.prems by (simp add: upt_conv_Cons)
  then have "lseg pool' nxt' [0..<m] \<and> length pool' = length ?p
    \<and> (\<forall>i < length ?p. t_data (pool' ! i) = t_data (?p ! i) \<and> t_num_bytes (pool' ! i) = t_num_bytes (?p ! i))"
    using Suc.prems by (intro Suc.IH) simp_all
  moreover have "t_data (?p ! i) = t_data (pool ! i) \<and> t_num_bytes (?p ! i) = t_num_bytes (pool ! i)" for i
    using Suc.prems(1) by (cases "i = n") simp_all
  ultimately show ?case by simp
qed simp

lemma usb_transfer_setup_spec:
  assumes len: "length (c_pool c) = 32" and wf: "list_all wf_transfer (c_pool c)"
    and "list_all (\<lambda>s. s_received s = None) (c_stream c)"
  shows "\<exists>p f. usb_transfer_setup c = c\<lparr>c_pool := p, c_free := f\<rparr>
    \<and> lseg p f [0..<length (c_pool c)] \<and> owns (c\<lparr>c_pool := p, c_free := f\<rparr>) {}"
proof -
  let ?n = "length (c_pool c)"
  obtain p f where 1: "transfer_setup_loop ?n None (c_pool c) = (p, f)" by fastforce
  have 2: "lseg p f [0..<?n]" "length p = ?n"
    "\<forall>i < ?n. t_data (p ! i) = t_data (c_pool c ! i) \<and> t_num_bytes (p ! i) = t_num_bytes (c_pool c ! i)"
    using transfer_setup_loop_spec [OF _ _ refl 1] by simp_all
  have "list_all wf_transfer p"
    using wf 2(2,3) by (simp add: list_all_length wf_transfer_def)
  moreover have "list_all2 (lseg p) (stream_queues (c_stream c)) (replicate (length (c_stream c)) [])"
    using assms(3) by (simp add: list_all2_conv_all_nth list_all_length)
  ultimately have "owns (c\<lparr>c_pool := p, c_free := f\<rparr>) {}"
    unfolding owns_def using 2(1,2) len
    by (intro pool_okI [where fl = "[0..<?n]" and ls = "replicate (length (c_stream c)) []"])
      (simp_all del: upt_conv_Cons upt_Suc)
  moreover have "usb_transfer_setup c = c\<lparr>c_pool := p, c_free := f\<rparr>"
    using 1 len by (simp add: usb_transfer_setup_def)
  ultimately show ?thesis using 2(1) by blast
qed

end
