(* ===== verification/Monitor_Client.thy ===== *)
theory Monitor_Client
  imports Monitor
begin

text \<open>
  The interface between the bus monitor and its client.  The monitor owns its record; the
  client is reached only through the callback and the store of the last PID.  Whatever the
  client's two operations keep, the monitor keeps, and the monitor's own buffer is only
  written within its bounds.
\<close>

definition monitor_ok :: "monitor \<Rightarrow> bool" where
  "monitor_ok m \<longleftrightarrow> length (m_bytes m) = MON_BYTES_SIZE + 2"

lemma monitor_ok_simps [simp]:
  "monitor_ok (m\<lparr>m_state := v1\<rparr>) = monitor_ok m" "monitor_ok (m\<lparr>m_driver := v2\<rparr>) = monitor_ok m"
  "monitor_ok (m\<lparr>m_pu := v3\<rparr>) = monitor_ok m" "monitor_ok (m\<lparr>m_line := v3\<rparr>) = monitor_ok m"
  "monitor_ok (m\<lparr>m_rawbits := v3\<rparr>) = monitor_ok m" "monitor_ok (m\<lparr>m_bits := v3\<rparr>) = monitor_ok m"
  "monitor_ok (m\<lparr>m_needbits := v3\<rparr>) = monitor_ok m" "monitor_ok (m\<lparr>m_sopAt := v3\<rparr>) = monitor_ok m"
  "monitor_ok (m\<lparr>m_lastpid := v4\<rparr>) = monitor_ok m" "monitor_ok (m\<lparr>m_byte := v4\<rparr>) = monitor_ok m"
  "monitor_ok (m\<lparr>m_file := v5\<rparr>) = monitor_ok m" "monitor_ok (mon_printf m s) = monitor_ok m"
  by (simp_all add: monitor_ok_def mon_printf_def)

lemma monitor_ok_init: "usb_monitor_init True = Some m \<Longrightarrow> monitor_ok m"
  by (auto simp: usb_monitor_init_def monitor_ok_def)

lemma mon_printf_sel [simp]:
  "m_bytes (mon_printf m s) = m_bytes m" "m_byte (mon_printf m s) = m_byte m"
  "m_state (mon_printf m s) = m_state m" "m_line (mon_printf m s) = m_line m"
  "m_driver (mon_printf m s) = m_driver m" "m_lastpid (mon_printf m s) = m_lastpid m"
  "m_rawbits (mon_printf m s) = m_rawbits m" "m_bits (mon_printf m s) = m_bits m"
  "m_needbits (mon_printf m s) = m_needbits m" "m_pu (mon_printf m s) = m_pu m"
  "m_sopAt (mon_printf m s) = m_sopAt m"
  by (simp_all add: mon_printf_def)

text \<open>
  The report of a packet reads within the buffer when the log is compact or at least two
  bytes have been received.
\<close>

lemma mon_log_packet_ok:
  assumes "monitor_ok mon" "E OutOfBounds \<or> compact \<or> 2 \<le> m_byte mon" "m_byte mon > 0"
  shows "wp E (mon_log_packet mon compact tick_bits) monitor_ok"
proof -
  have len: "length (m_bytes mon) = 1026" using assms(1) by (simp add: monitor_ok_def)
  have b: "0 < unat (m_byte mon)" using assms(3) by (simp add: unat_gt_0)
  have idx: "2 \<le> uint (m_byte mon) \<and> nat (uint (m_byte mon) - 2) < 1026 \<and> nat (uint (m_byte mon) - 1) < 1026"
    if "2 \<le> unat (m_byte mon)"
  proof -
    have "unat (m_byte mon) < 256" by simp
    moreover have "uint (m_byte mon) = int (unat (m_byte mon))" by simp
    ultimately show ?thesis using that by linarith
  qed
  have 2: "E OutOfBounds \<or> 2 \<le> unat (m_byte mon)" if "\<not> (compact \<and> m_byte mon = 2)" "\<not> (compact \<and> m_byte mon = 1)"
  proof -
    have "unat (m_byte mon) \<noteq> 1" if "m_byte mon \<noteq> 1" using that by (metis unat_1 unsigned_word_eqI)
    then show ?thesis using that assms(2) b by (auto simp: word_le_nat_alt)
  qed
  show ?thesis
    using len 2 idx assms(1)
    by (auto simp: mon_log_packet_def Let_def CRC16_def dump_bytes_def)
qed

lemma mon_sample_ok:
  "monitor_ok mon \<Longrightarrow> monitor_ok (fst (mon_sample mon log tick_bits hdrive p2d d2p))"
  by (simp add: mon_sample_def Let_def)

locale monitor_client =
  fixes cb :: "mon_data_type \<Rightarrow> u8 \<Rightarrow> 'c \<Rightarrow> 'c res"
    and set_lastpid :: "u8 \<Rightarrow> 'c \<Rightarrow> 'c"
    and I :: "'c \<Rightarrow> bool"
    and E :: "error \<Rightarrow> bool"
  assumes callback_keeps: "I c \<Longrightarrow> wp E (cb type d c) I"
    and lastpid_keeps: "I c \<Longrightarrow> I (set_lastpid pid c)"
begin

abbreviation keeps :: "(monitor \<times> 'c) res \<Rightarrow> bool" where
  "keeps m \<equiv> wp E m (\<lambda>x. monitor_ok (fst x) \<and> I (snd x))"

lemma callback_wp: "I c \<Longrightarrow> wp E (data_callback (Some cb) type d c) I"
  by (simp add: data_callback_def callback_keeps)

lemma complete_keeps:
  assumes "monitor_ok mon" "I c"
  shows "keeps (mon_complete (Some cb) set_lastpid mon log tick_bits c)"
proof -
  have len: "length (m_bytes mon) = 1026" using assms(1) by (simp add: monitor_ok_def)
  have "unat (m_byte mon) < 256" by simp
  then have b: "unat (m_byte mon) < 1026" by linarith
  have upd: "monitor_ok (mon\<lparr>m_bytes := bs\<rparr>)" if "length bs = 1026" for bs
    using that by (simp add: monitor_ok_def)
  show ?thesis
    using assms len b
    by (auto simp: mon_complete_def Let_def upd intro!: callback_wp lastpid_keeps split: mon_state.split)
qed

lemma eop_keeps:
  assumes "monitor_ok mon" "I c" "E OutOfBounds \<or> compact \<or> \<not> log"
  shows "keeps (mon_eop (Some cb) mon log compact tick_bits c)"
  using assms by (auto simp: mon_eop_def Let_def intro!: callback_wp wp_mono [OF mon_log_packet_ok])

lemma bit_keeps:
  "monitor_ok mon \<Longrightarrow> I c \<Longrightarrow> keeps (mon_bit (Some cb) set_lastpid mon log tick_bits c)"
  by (auto simp: mon_bit_def Let_def intro!: complete_keeps)

lemma monitor_keeps:
  assumes "monitor_ok mon" "I c" "E OutOfBounds \<or> has loglevel 1 \<or> \<not> has loglevel 2"
  shows "keeps (usb_monitor (Some cb) set_lastpid (Some mon) loglevel tick_bits hdrive p2d d2p c)"
proof -
  obtain m l where ml: "mon_sample mon (has loglevel 2) tick_bits hdrive p2d d2p = (m, l)" by fastforce
  then have "monitor_ok m" using mon_sample_ok [OF assms(1)] by (metis fst_conv)
  then show ?thesis
    using ml assms
    by (auto simp: usb_monitor_def mon_line_def Let_def split: option.split
        intro!: callback_wp eop_keeps bit_keeps)
qed

end

end
