(* ===== verification/Invariant.thy ===== *)
theory Invariant
  imports Pool Monitor_Client
begin

text \<open>
  The invariant of the host model's state and the contracts of the operations that build
  and send packets.  \<open>ctx_inv H c\<close> holds between any two steps with \<open>H = {}\<close>; inside a step,
  \<open>H\<close> holds the descriptors that only a local variable refers to.  The contracts are rules
  for \<open>wp\<close> that leave the rest of the computation as a premise; the proof of an operation
  applies them in the order of its calls.
\<close>

section \<open>The invariant\<close>

definition held :: "ctx \<Rightarrow> nat set" where
  "held c = set_option (c_sending c) \<union> set_option (c_recving c)"

definition data_pid :: "u8 \<Rightarrow> bool" where
  "data_pid pid \<longleftrightarrow> pid = USB_PID_DATA0 \<or> pid = USB_PID_DATA1"

definition stream_ok :: "stream \<Rightarrow> bool" where
  "stream_ok s \<longleftrightarrow> s_ep_in s < 0x10 \<and> s_ep_out s < 0x10 \<and> s_nretries s \<le> 3"

fun transmitting :: "drv_state \<Rightarrow> bool" where
  "transmitting ST_IDLE = False"
| "transmitting ST_GET = False"
| "transmitting _ = True"

definition ctx_ok :: "ctx \<Rightarrow> bool" where
  "ctx_ok c \<longleftrightarrow>
     length (c_ep_in c) = USBDPI_MAX_ENDPOINTS \<and> list_all data_pid (c_ep_in c)
     \<and> length (c_ep_out c) = USBDPI_MAX_ENDPOINTS \<and> list_all data_pid (c_ep_out c)
     \<and> length (c_stream c) = USBDPI_MAX_STREAMS \<and> list_all stream_ok (c_stream c)
     \<and> c_nstreams c \<le> 15 \<and> c_stream_in c < 15 \<and> c_stream_out c < 15
     \<and> c_dev_address c < 0x80 \<and> length (c_test_arg c) = 4
     \<and> c_step c \<le> 0x7f \<and> c_num_tries c < USBDPI_MAX_TRIES
     \<and> (\<exists>m. c_mon c = Some m \<and> monitor_ok m)"

definition ctx_inv :: "nat set \<Rightarrow> ctx \<Rightarrow> bool" where
  "ctx_inv H c \<longleftrightarrow>
     owns c (held c \<union> H) \<and> held c \<inter> H = {}
     \<and> (c_sending c = None \<or> c_sending c \<noteq> c_recving c)
     \<and> (\<forall>i. c_recving c = Some i \<longrightarrow> t_next (c_pool c ! i) = None)
     \<and> ctx_ok c \<and> (transmitting (c_state c) \<longrightarrow> c_sending c \<noteq> None)"

text \<open>Fields the invariant does not read.\<close>

lemma inv_frame [simp]:
  "ctx_inv H (c\<lparr>c_bus_state := v1\<rparr>) = ctx_inv H c" "ctx_inv H (c\<lparr>c_driving := v2\<rparr>) = ctx_inv H c"
  "ctx_inv H (c\<lparr>c_linebits := v2\<rparr>) = ctx_inv H c" "ctx_inv H (c\<lparr>c_bit := v2\<rparr>) = ctx_inv H c"
  "ctx_inv H (c\<lparr>c_byte := v3\<rparr>) = ctx_inv H c" "ctx_inv H (c\<lparr>c_test_number := v2\<rparr>) = ctx_inv H c"
  "ctx_inv H (c\<lparr>c_test_status := v2\<rparr>) = ctx_inv H c" "ctx_inv H (c\<lparr>c_loglevel := v2\<rparr>) = ctx_inv H c"
  "ctx_inv H (c\<lparr>c_hostSt := v4\<rparr>) = ctx_inv H c" "ctx_inv H (c\<lparr>c_last_pu := v2\<rparr>) = ctx_inv H c"
  "ctx_inv H (c\<lparr>c_lastrxpid := v5\<rparr>) = ctx_inv H c" "ctx_inv H (c\<lparr>c_tick := v2\<rparr>) = ctx_inv H c"
  "ctx_inv H (c\<lparr>c_tick_bits := v2\<rparr>) = ctx_inv H c" "ctx_inv H (c\<lparr>c_recovery_time := v2\<rparr>) = ctx_inv H c"
  "ctx_inv H (c\<lparr>c_frame := v6\<rparr>) = ctx_inv H c" "ctx_inv H (c\<lparr>c_framepend := v7\<rparr>) = ctx_inv H c"
  "ctx_inv H (c\<lparr>c_frame_start := v2\<rparr>) = ctx_inv H c" "ctx_inv H (c\<lparr>c_wait := v2\<rparr>) = ctx_inv H c"
  "ctx_inv H (c\<lparr>c_baudrate_set_successfully := v2\<rparr>) = ctx_inv H c"
  "ctx_inv H (c\<lparr>c_cfg_desc_len := v6\<rparr>) = ctx_inv H c"
  by (simp_all add: ctx_inv_def owns_def held_def ctx_ok_def)

lemma inv_state: "ctx_inv H c \<Longrightarrow> transmitting st \<longrightarrow> c_sending c \<noteq> None \<Longrightarrow> ctx_inv H (c\<lparr>c_state := st\<rparr>)"
  by (simp add: ctx_inv_def owns_def held_def ctx_ok_def)

lemma inv_start_sending:
  "ctx_inv H c \<Longrightarrow> c_sending c = Some i \<Longrightarrow> ctx_inv H (c\<lparr>c_sending := Some i, c_state := st\<rparr>)"
  by (simp add: ctx_inv_def owns_def held_def ctx_ok_def)

lemma inv_dev_address: "ctx_inv H c \<Longrightarrow> a < 0x80 \<Longrightarrow> ctx_inv H (c\<lparr>c_dev_address := a\<rparr>)"
  by (simp add: ctx_inv_def owns_def held_def ctx_ok_def)

lemma inv_step: "ctx_inv H c \<Longrightarrow> s \<le> 0x7f \<Longrightarrow> ctx_inv H (c\<lparr>c_step := s\<rparr>)"
  by (simp add: ctx_inv_def owns_def held_def ctx_ok_def)

lemma inv_num_tries: "ctx_inv H c \<Longrightarrow> n < USBDPI_MAX_TRIES \<Longrightarrow> ctx_inv H (c\<lparr>c_num_tries := n\<rparr>)"
  by (simp add: ctx_inv_def owns_def held_def ctx_ok_def)

lemma inv_ep_out: "ctx_inv H c \<Longrightarrow> data_pid pid \<Longrightarrow> ctx_inv H (c\<lparr>c_ep_out := (c_ep_out c)[k := pid]\<rparr>)"
  by (simp add: ctx_inv_def owns_def held_def ctx_ok_def list_all_update)

lemma inv_ep_in: "ctx_inv H c \<Longrightarrow> data_pid pid \<Longrightarrow> ctx_inv H (c\<lparr>c_ep_in := (c_ep_in c)[k := pid]\<rparr>)"
  by (simp add: ctx_inv_def owns_def held_def ctx_ok_def list_all_update)

lemma inv_mon: "ctx_inv H c \<Longrightarrow> monitor_ok m \<Longrightarrow> ctx_inv H (c\<lparr>c_mon := Some m\<rparr>)"
  by (simp add: ctx_inv_def owns_def held_def ctx_ok_def)

lemma data_pid_toggle [simp]: "data_pid (DATA_TOGGLE_ADVANCE pid)"
  by (simp add: data_pid_def DATA_TOGGLE_ADVANCE_def)

lemma data_pid_consts [simp]: "data_pid 0xC3" "data_pid 0x4B"
  by (simp_all add: data_pid_def)

lemma inv_ctx_ok: "ctx_inv H c \<Longrightarrow> ctx_ok c"
  by (simp add: ctx_inv_def)

lemma inv_dev: "ctx_inv H c \<Longrightarrow> c_dev_address c < 0x80"
  by (simp add: ctx_inv_def ctx_ok_def)

lemma inv_lengths:
  "ctx_inv H c \<Longrightarrow> length (c_ep_in c) = 16 \<and> length (c_ep_out c) = 16 \<and> length (c_stream c) = 15
     \<and> length (c_test_arg c) = 4 \<and> length (c_pool c) = 32"
  by (auto simp: ctx_inv_def ctx_ok_def dest: owns_length)

lemma inv_ep_out_pid: "ctx_inv H c \<Longrightarrow> k < 16 \<Longrightarrow> data_pid (c_ep_out c ! k)"
  by (simp add: ctx_inv_def ctx_ok_def list_all_length)

lemma inv_ep_in_pid: "ctx_inv H c \<Longrightarrow> k < 16 \<Longrightarrow> data_pid (c_ep_in c ! k)"
  by (simp add: ctx_inv_def ctx_ok_def list_all_length)

lemma inv_stream_ok: "ctx_inv H c \<Longrightarrow> k < 15 \<Longrightarrow> stream_ok (c_stream c ! k)"
  by (simp add: ctx_inv_def ctx_ok_def list_all_length)

lemma inv_sending: "ctx_inv H c \<Longrightarrow> c_sending c = Some i \<Longrightarrow> i < 32 \<and> i \<in> held c"
  by (auto simp: ctx_inv_def held_def dest: owns_held)

lemma inv_recving: "ctx_inv H c \<Longrightarrow> c_recving c = Some i \<Longrightarrow> i < 32 \<and> i \<in> held c"
  by (auto simp: ctx_inv_def held_def dest: owns_held)

lemma inv_local: "ctx_inv H c \<Longrightarrow> i \<in> H \<Longrightarrow> i < 32 \<and> i \<notin> held c"
  by (auto simp: ctx_inv_def dest: owns_held)

lemma inv_wf: "ctx_inv H c \<Longrightarrow> i < 32 \<Longrightarrow> wf_transfer (c_pool c ! i)"
  by (auto simp: ctx_inv_def dest: owns_wf)

text \<open>Writing a descriptor that is held; the one being received keeps its link.\<close>

lemma inv_write:
  assumes "ctx_inv H c" "i \<in> held c \<union> H" "wf_transfer t" "c_recving c = Some i \<longrightarrow> t_next t = None"
  shows "ctx_inv H (c\<lparr>c_pool := (c_pool c)[i := t]\<rparr>)"
proof -
  have "owns (c\<lparr>c_pool := (c_pool c)[i := t]\<rparr>) (held c \<union> H)"
    using assms(1-3) by (intro owns_write) (auto simp: ctx_inv_def)
  moreover have "t_next ((c_pool c)[i := t] ! j) = None" if "c_recving c = Some j" for j
    using that assms(1,4) inv_lengths [OF assms(1)] inv_recving [OF assms(1) that]
    by (cases "i = j") (auto simp: ctx_inv_def)
  ultimately show ?thesis
    using assms(1) by (simp add: ctx_inv_def held_def ctx_ok_def)
qed

lemma inv_write_sending:
  "ctx_inv H c \<Longrightarrow> c_sending c = Some i \<Longrightarrow> wf_transfer t \<Longrightarrow> ctx_inv H (c\<lparr>c_pool := (c_pool c)[i := t]\<rparr>)"
  by (rule inv_write) (auto simp: ctx_inv_def held_def)

section \<open>Building and sending a packet\<close>

text \<open>\<open>building c i n H\<close>: the descriptor \<open>i\<close> is the one to send and holds \<open>n\<close> bytes.\<close>

definition building :: "ctx \<Rightarrow> nat \<Rightarrow> u8 \<Rightarrow> bool" where
  "building c i n \<longleftrightarrow> ctx_inv {} c \<and> c_sending c = Some i \<and> t_num_bytes (c_pool c ! i) = n"

definition loaded :: "ctx \<Rightarrow> nat \<Rightarrow> bool" where
  "loaded c i \<longleftrightarrow> ctx_inv {} c \<and> c_sending c = Some i \<and> t_num_bytes (c_pool c ! i) \<noteq> 0"

lemma building_loaded [simp]: "building c i 3 \<Longrightarrow> loaded c i"
  by (simp add: building_def loaded_def)

lemma wp_put_token [wp_intro]:
  assumes inv: "ctx_inv {} c" "c_sending c = Some i" "device < 0x80" "endpoint < 0x10"
    and Q: "\<And>c'. building c' i 3 \<Longrightarrow> Q c'"
  shows "wp E (put_token c (Some i) pid device endpoint) Q"
proof -
  note i = inv_sending [OF inv(1,2)]
  have wf: "wf_transfer (c_pool c ! i)" using inv_wf [OF inv(1)] i by simp
  obtain t where t: "transfer_token (c_pool c ! i) pid device endpoint = Inr t"
    "wf_transfer t" "t_num_bytes t = 3"
    using wf_transfer_token [OF wf inv(3,4)] unfolding wp_no_error_iff by blast
  then have "building (c\<lparr>c_pool := (c_pool c)[i := t]\<rparr>) i 3"
    using inv_write_sending [OF inv(1,2)] inv(2) i inv_lengths [OF inv(1)] by (simp add: building_def)
  then show ?thesis
    using t(1) i inv_lengths [OF inv(1)] Q by (simp add: put_token_def upd_tr_Some)
qed

lemma wp_put_data [wp_intro]:
  assumes b: "building c i 3" and pid: "data_pid pid"
    and est: "est_size \<le> 69" and room: "length payload < 67"
    and Q: "\<And>c'. loaded c' i \<Longrightarrow> Q c'"
  shows "wp E (put_data c (Some i) pid est_size payload) Q"
proof -
  have inv: "ctx_inv {} c" "c_sending c = Some i" and n: "t_num_bytes (c_pool c ! i) = 3"
    using b by (simp_all add: building_def)
  note i = inv_sending [OF inv]
  have wf: "wf_transfer (c_pool c ! i)" using inv_wf [OF inv(1)] i by simp
  have "wp no_error (data_stage (c_pool c ! i) pid est_size payload)
    (\<lambda>t'. wf_transfer t' \<and> unat (t_num_bytes t') = 3 + 3 + length payload
          \<and> t_next t' = t_next (c_pool c ! i))"
    using wf_data_stage [OF wf, of pid est_size payload] pid est room
    unfolding n data_pid_def by (simp add: word_le_nat_alt)
  then obtain t where t: "data_stage (c_pool c ! i) pid est_size payload = Inr t"
    "wf_transfer t" "unat (t_num_bytes t) = 3 + 3 + length payload"
    unfolding wp_no_error_iff by blast
  then have "loaded (c\<lparr>c_pool := (c_pool c)[i := t]\<rparr>) i"
    using inv_write_sending [OF inv] inv(2) i inv_lengths [OF inv(1)] by (auto simp: loaded_def)
  then show ?thesis
    using t(1) i inv_lengths [OF inv(1)] Q by (simp add: put_data_def upd_tr_Some)
qed

lemma wp_send [wp_intro]:
  assumes "loaded c i" "\<And>c'. ctx_inv {} c' \<Longrightarrow> c_sending c' = Some i \<Longrightarrow> Q c'"
  shows "wp E (transfer_send c (Some i)) Q"
proof -
  have inv: "ctx_inv {} c" "c_sending c = Some i" "t_num_bytes (c_pool c ! i) \<noteq> 0"
    using assms(1) by (simp_all add: loaded_def)
  note i = inv_sending [OF inv(1,2)]
  have wf: "wf_transfer (c_pool c ! i)" using inv_wf [OF inv(1)] i by simp
  have "ctx_inv {} (c\<lparr>c_sending := Some i, c_state := ST_SYNC, c_byte := 0, c_bit := 1\<rparr>)"
    using inv_start_sending [OF inv(1,2)] by simp
  then show ?thesis
    using inv i wf inv_lengths [OF inv(1)] assms(2)
    by (simp add: transfer_send_def get_tr_Some wf_transfer_def word_neq_0_conv)
qed

lemma wp_status [wp_intro]:
  assumes inv: "ctx_inv {} c" "c_sending c = Some i"
    and "\<And>c'. loaded c' i \<Longrightarrow> ctx_inv {} c' \<Longrightarrow> c_sending c' = Some i \<Longrightarrow> Q c'"
  shows "wp E (transfer_status c (Some i) pid) Q"
proof -
  have Q: "Q c'" if "loaded c' i" for c'
    using assms(3) [OF that] that by (simp add: loaded_def)
  note i = inv_sending [OF inv]
  have wf: "wf_transfer (c_pool c ! i)" using inv_wf [OF inv(1)] i by simp
  define t where "t = (c_pool c ! i)\<lparr>t_num_bytes := 1, t_data := (t_data (c_pool c ! i))[0 := pid],
      t_data_start := 0xff\<rparr>"
  have "wf_transfer t" using wf by (simp add: t_def wf_transfer_def)
  then have "ctx_inv {} (c\<lparr>c_pool := (c_pool c)[i := t]\<rparr>)" by (rule inv_write_sending [OF inv])
  then have "ctx_inv {} (c\<lparr>c_pool := (c_pool c)[i := t]\<rparr>\<lparr>c_sending := Some i, c_state := ST_SYNC\<rparr>)"
    using inv(2) by (intro inv_start_sending) simp_all
  then have "loaded (c\<lparr>c_pool := (c_pool c)[i := t], c_sending := Some i, c_state := ST_SYNC,
      c_byte := 0, c_bit := 1\<rparr>) i"
    using i inv_lengths [OF inv(1)] inv(2) by (simp add: loaded_def t_def)
  then show ?thesis
    using i wf inv_lengths [OF inv(1)] inv(2) Q
    by (simp add: transfer_status_def upd_tr_Some wf_transfer_def t_def)
qed

lemma wp_toggle_out [wp_intro]:
  "ctx_inv H c \<Longrightarrow> endpoint < 0x10 \<Longrightarrow> (\<And>ep. ctx_inv H (c\<lparr>c_ep_out := ep\<rparr>) \<Longrightarrow> Q (c\<lparr>c_ep_out := ep\<rparr>)) \<Longrightarrow>
   wp E (toggle_out c endpoint) Q"
  using inv_lengths [of H c] inv_ep_out [of H c]
  by (simp add: toggle_out_def word_less_nat_alt)

end
