(* ===== verification/Transactions.thy ===== *)
theory Transactions
  imports Invariant
begin

text \<open>
  The transactions of \<open>Host_Control\<close> keep the invariant.  Those that only build and send
  packets never fail; those that read the device's reply can stop at an \<open>assert\<close> or, when
  the reply is shorter than the code takes for granted, read beyond the buffer.
\<close>

lemma endpoint_unat: "endpoint < (0x10 :: u8) \<Longrightarrow> unat endpoint < 16"
  by (simp add: word_less_nat_alt)

lemma building_ep_out [simp]:
  assumes "building c i n" "endpoint < (0x10 :: u8)"
  shows "unat endpoint < length (c_ep_out c)" "data_pid (c_ep_out c ! unat endpoint)"
  using assms inv_lengths [of "{}" c] inv_ep_out_pid [of "{}" c "unat endpoint"] endpoint_unat [of endpoint]
  by (simp_all add: building_def)

lemmas txn_intros = wp_put_token wp_put_data wp_send wp_status wp_toggle_out conjI impI

lemma setDeviceAddress_inv:
  "ctx_inv {} c \<Longrightarrow> c_sending c = Some i \<Longrightarrow> dev_addr < 0x80 \<Longrightarrow>
   wp E (setDeviceAddress c dev_addr) (ctx_inv {})"
  by (cases "c_hostSt c")
    (simp_all add: setDeviceAddress_def Let_def,
     (intro txn_intros; simp add: inv_dev inv_dev_address)+)

lemma setDeviceConfiguration_inv:
  "ctx_inv {} c \<Longrightarrow> c_sending c = Some i \<Longrightarrow> wp E (setDeviceConfiguration c config) (ctx_inv {})"
  by (cases "c_hostSt c")
    (simp_all add: setDeviceConfiguration_def Let_def, (intro txn_intros; simp add: inv_dev)+)

lemma readBaud_inv:
  "ctx_inv {} c \<Longrightarrow> c_sending c = Some i \<Longrightarrow> endpoint < 0x10 \<Longrightarrow> wp E (readBaud c endpoint) (ctx_inv {})"
  by (cases "c_hostSt c")
    (simp_all add: readBaud_def Let_def, (intro txn_intros; simp add: inv_dev)+)

lemma setBaud_inv:
  "ctx_inv {} c \<Longrightarrow> c_sending c = Some i \<Longrightarrow> endpoint < 0x10 \<Longrightarrow> wp E (setBaud c endpoint) (ctx_inv {})"
  by (cases "c_hostSt c")
    (simp_all add: setBaud_def Let_def, (intro txn_intros; simp add: inv_dev)+)

lemma length_tx_pattern [simp]: "length tx_pattern = 65"
  by (simp add: tx_pattern_def)

lemma tryTX_inv:
  "ctx_inv {} c \<Longrightarrow> c_sending c = Some i \<Longrightarrow> endpoint < 0x10 \<Longrightarrow>
   wp E (tryTX c endpoint expect_status) (ctx_inv {})"
  by (cases "c_hostSt c")
    (simp_all add: tryTX_def Let_def, (intro txn_intros; simp add: inv_dev)+)

lemma pollRX_inv:
  "ctx_inv {} c \<Longrightarrow> c_sending c = Some i \<Longrightarrow> endpoint < 0x10 \<Longrightarrow>
   wp E (pollRX c endpoint send_hi nak_data) (ctx_inv {})"
  by (cases "c_hostSt c")
    (simp_all add: pollRX_def Let_def, (intro txn_intros; simp add: inv_dev)+)

lemma testUnimplEp_inv:
  "ctx_inv {} c \<Longrightarrow> c_sending c = Some i \<Longrightarrow> device < 0x80 \<Longrightarrow> endpoint < 0x10 \<Longrightarrow>
   wp E (testUnimplEp c pid device endpoint) (ctx_inv {})"
  by (cases "c_hostSt c")
    (simp_all add: testUnimplEp_def Let_def, (intro txn_intros; simp)+)

lemma transfer_setup_eq:
  "transfer_setup c tr rt rq wValue wIndex wLength =
     bnd (put_token c tr USB_PID_SETUP (c_dev_address c) ENDPOINT_ZERO) (\<lambda>c.
     bnd (put_data c tr USB_PID_DATA0 8
            [rt, rq, to_u8 wValue, to_u8 (drop_bit 8 wValue), to_u8 wIndex, to_u8 (drop_bit 8 wIndex),
             to_u8 wLength, to_u8 (drop_bit 8 wLength)]) (\<lambda>c.
     bnd (transfer_send c tr) (\<lambda>c.
       Inr (c\<lparr>c_bus_state := kUsbControlSetup, c_wait := c_tick_bits c + USBDPI_INTERVAL_SETUP_STAGE,
              c_hostSt := HS_WAITACK\<rparr>))))"
  by (simp add: transfer_setup_def put_token_def put_data_def)

lemma transfer_setup_inv:
  "ctx_inv {} c \<Longrightarrow> c_sending c = Some i \<Longrightarrow>
   wp E (transfer_setup c (Some i) rt rq wValue wIndex wLength) (ctx_inv {})"
  by (simp add: transfer_setup_eq) (intro txn_intros; simp add: inv_dev)

lemma control_in_token_inv:
  "ctx_inv {} c \<Longrightarrow> c_sending c = Some i \<Longrightarrow> wp E (control_in_token c) (ctx_inv {})"
  by (simp add: control_in_token_def Let_def) (intro txn_intros; simp add: inv_dev)

lemma control_in_ack_inv:
  "ctx_inv {} c \<Longrightarrow> c_sending c = Some i \<Longrightarrow> wp E (control_in_ack c) (ctx_inv {})"
  by (simp add: control_in_ack_def Let_def) (intro txn_intros; simp)

lemma control_status_out_inv:
  "ctx_inv {} c \<Longrightarrow> c_sending c = Some i \<Longrightarrow> wp E (control_status_out c) (ctx_inv {})"
  by (simp add: control_status_out_def Let_def) (intro txn_intros; simp add: inv_dev)

lemma control_status_ack_inv:
  "ctx_inv {} c \<Longrightarrow> wp E (control_status_ack c) (ctx_inv {})"
  by (simp add: control_status_ack_def) (intro txn_intros; simp)

lemmas control_inv = transfer_setup_inv control_in_token_inv control_in_ack_inv
  control_status_out_inv control_status_ack_inv

lemma getDescriptor_inv:
  "ctx_inv {} c \<Longrightarrow> c_sending c = Some i \<Longrightarrow>
   wp safe_error (getDescriptor c desc_type desc_idx desc_len) (ctx_inv {})"
  using inv_lengths [of "{}" c] inv_recving [of "{}" c]
  by (cases "c_hostSt c"; cases "c_recving c"; cases "c_step c = STEP_GET_CONFIG_DESCRIPTOR")
    (auto simp: getDescriptor_def get_tr_Some wp_nonnull split: option.split intro!: control_inv)

section \<open>Starting a test\<close>

lemma inv_stream_drop:
  assumes "ctx_inv H (c\<lparr>c_stream := ss\<rparr>)" "k < 15" "s_received s = None" "stream_ok s"
  shows "ctx_inv H (c\<lparr>c_stream := ss[k := s]\<rparr>)"
proof -
  have "length ss = 15" using inv_lengths [OF assms(1)] by simp
  then show ?thesis
    using assms pool_ok_drop [of "c_pool c" "c_free c" "stream_queues ss" "held c \<union> H" k]
    by (simp add: ctx_inv_def owns_def held_def ctx_ok_def map_update list_all_update)
qed

lemma stream_start_ok: "k < 15 \<Longrightarrow> stream_ok (stream_start (of_nat k) ty retrieve checking retrying send)"
proof -
  assume k: "k < 15"
  have "unat (to_u8 (1 + of_nat k :: u32)) = Suc k"
    using k by (simp add: unsigned_ucast_eq unat_word_ariths unat_of_nat take_bit_nat_eq_self)
  then show ?thesis
    using k by (simp add: stream_ok_def stream_start_def word_less_nat_alt)
qed

lemma streams_init_loop_inv:
  "ctx_inv H (c\<lparr>c_stream := ss\<rparr>) \<Longrightarrow> k + n \<le> 15 \<Longrightarrow> k + n \<le> length tys \<Longrightarrow>
   wp no_error (streams_init_loop n k tys retrieve checking retrying send ss)
     (\<lambda>ss'. ctx_inv H (c\<lparr>c_stream := ss'\<rparr>))"
proof (induction n arbitrary: k ss)
  case (Suc n)
  have "length ss = 15" using inv_lengths [OF Suc.prems(1)] by simp
  moreover have "ctx_inv H (c\<lparr>c_stream := ss[k := stream_start (of_nat k) (tys ! k) retrieve checking retrying send]\<rparr>)"
    using Suc.prems by (intro inv_stream_drop stream_start_ok) (simp_all add: stream_start_def)
  ultimately show ?case
    using Suc.prems Suc.IH [of "ss[k := stream_start (of_nat k) (tys ! k) retrieve checking retrying send]" "Suc k"]
    by simp
qed simp

lemma inv_arbitration:
  "ctx_inv H c \<Longrightarrow> n \<le> 15 \<Longrightarrow> i < 15 \<Longrightarrow> j < 15 \<Longrightarrow>
   ctx_inv H (c\<lparr>c_nstreams := n, c_stream_in := i, c_stream_out := j\<rparr>)"
  by (simp add: ctx_inv_def owns_def held_def ctx_ok_def)

lemma streams_init_inv:
  assumes inv: "ctx_inv H c" and len: "unat nstreams \<le> length tys"
  shows "wp no_error (streams_init c nstreams tys retrieve checking retrying send) (\<lambda>(ok, c'). ctx_inv H c')"
proof (cases "nstreams = 0 \<or> unat nstreams > 15")
  case False
  define d where "d = c\<lparr>c_nstreams := to_u8 nstreams, c_stream_in := 0, c_stream_out := to_u8 (nstreams - 1)\<rparr>"
  have n: "0 < unat nstreams" "unat nstreams \<le> 15" using False by (simp_all add: unat_gt_0)
  have "unat (nstreams - 1) = unat nstreams - 1"
    using n by (simp add: unat_sub word_le_nat_alt)
  then have "to_u8 (nstreams - 1) < 15" "to_u8 nstreams \<le> 15"
    using n by (simp_all add: word_less_nat_alt word_le_nat_alt unsigned_ucast_eq take_bit_nat_eq_self)
  then have d: "ctx_inv H d" unfolding d_def by (intro inv_arbitration inv) simp_all
  have "wp no_error (streams_init_loop (unat nstreams) 0 tys retrieve checking retrying send (c_stream d))
     (\<lambda>ss'. ctx_inv H (d\<lparr>c_stream := ss'\<rparr>))"
    using d n len by (intro streams_init_loop_inv) simp_all
  then show ?thesis
    using False by (simp add: streams_init_def d_def)
qed (simp add: streams_init_def inv)

lemma mixed_types_loop_length:
  "wp assert_only (mixed_types_loop n mixed_types) (\<lambda>ts. length ts = n)"
proof (induction n arbitrary: mixed_types)
  case (Suc n)
  then show ?case
    by (simp add: Let_def)
qed simp

lemma usbdpi_test_init_inv:
  assumes "ctx_inv H c"
  shows "wp assert_only (usbdpi_test_init c) (ctx_inv H)"
proof -
  let ?n = "to_u32 (c_test_arg c ! 0 AND 0xf)"
  have init: "wp assert_only (streams_init c ?n tys r1 r2 r3 r4) (\<lambda>x. fst x \<longrightarrow> ctx_inv H (snd x))"
    if "length tys = unat ?n" for tys r1 r2 r3 r4
    by (rule wp_weaken [OF streams_init_inv [OF assms]]) (use that in auto)
  have len: "length (c_test_arg c) = 4" using inv_lengths [OF assms] by simp
  show ?thesis
    using assms len
    by (simp add: usbdpi_test_init_def Let_def case_prod_beta)
      (intro impI conjI; (rule init | rule wp_mono [OF mixed_types_loop_length init]); simp)
qed

section \<open>The test configuration\<close>

lemma inv_test_arg: "ctx_inv H c \<Longrightarrow> length a = 4 \<Longrightarrow> ctx_inv H (c\<lparr>c_test_arg := a\<rparr>)"
  by (simp add: ctx_inv_def owns_def held_def ctx_ok_def)

lemma wp_get_le16: "E OutOfBounds \<Longrightarrow> (\<And>x. Q x) \<Longrightarrow> wp E (get_le16 d) Q"
  by (simp add: get_le16_def)

lemma wp_get_le32: "E OutOfBounds \<Longrightarrow> (\<And>x. Q x) \<Longrightarrow> wp E (get_le32 d) Q"
  by (simp add: get_le32_def)

lemma wp_test_desc_valid: "E OutOfBounds \<Longrightarrow> (\<And>x. Q x) \<Longrightarrow> wp E (test_desc_valid d) Q"
  by (simp add: test_desc_valid_def wp_get_le16)

lemmas wp_read_bytes = wp_get_le16 wp_get_le32 wp_test_desc_valid

lemma streams_init_sending:
  "wp any_error (streams_init c nstreams tys r1 r2 r3 r4) (\<lambda>x. c_sending (snd x) = c_sending c)"
  by (simp add: streams_init_def Let_def)

lemma usbdpi_test_init_sending:
  "wp any_error (usbdpi_test_init c) (\<lambda>c'. c_sending c' = c_sending c)"
proof -
  have init: "wp any_error (streams_init c n tys r1 r2 r3 r4)
      (\<lambda>x. fst x \<longrightarrow> c_sending (snd x) = c_sending c)" for n tys r1 r2 r3 r4
    by (rule wp_mono [OF streams_init_sending]) simp
  show ?thesis
    by (simp add: usbdpi_test_init_def Let_def case_prod_beta init)
qed

lemma read_test_desc_inv:
  assumes "ctx_inv {} c"
  shows "wp safe_error (read_test_desc c) (\<lambda>c'. ctx_inv {} c' \<and> c_sending c' = c_sending c)"
proof (cases "c_recving c")
  case (Some j)
  have j: "j < length (c_pool c)"
    using inv_recving [OF assms Some] inv_lengths [OF assms] by simp
  have "wp safe_error (usbdpi_test_init (c\<lparr>c_test_number := n, c_test_arg := a\<rparr>)) (ctx_inv {})"
    if "length a = 4" for n a
    by (rule wp_weaken [OF usbdpi_test_init_inv])
      (use assms that in \<open>auto intro!: inv_test_arg elim: assert_only.elims\<close>)
  then have init: "wp safe_error (usbdpi_test_init (c\<lparr>c_test_number := n, c_test_arg := a\<rparr>))
      (\<lambda>c'. ctx_inv {} c' \<and> c_sending c' = c_sending c)" if "length a = 4" for n a
    using that usbdpi_test_init_sending [of "c\<lparr>c_test_number := n, c_test_arg := a\<rparr>"]
    by (intro wp_conj_any) simp_all
  show ?thesis
    using Some j
    by (auto simp: read_test_desc_def get_tr_Some wp_nonnull Let_def intro!: init wp_read_bytes)
qed (simp add: read_test_desc_def)

lemma getTestConfig_inv:
  "ctx_inv {} c \<Longrightarrow> c_sending c = Some i \<Longrightarrow> wp safe_error (getTestConfig c desc_len) (ctx_inv {})"
  by (cases "c_hostSt c")
    (auto simp: getTestConfig_def intro!: control_inv wp_mono [OF read_test_desc_inv])

end
