(* ===== verification/Stream_Inv.thy ===== *)
theory Stream_Inv
  imports Transactions
begin

text \<open>
  \<open>streams_service\<close> keeps the invariant: the packets of the streams' queues, the reply
  under construction and the packet taken over from the receiver are never in two places,
  no null pointer is followed and the walks along the queues end.
\<close>

section \<open>Moving descriptors between owners\<close>

lemma wp_alloc:
  assumes inv: "ctx_inv H c" and none: "c_free c = None \<Longrightarrow> Q (None, c)"
    and some: "\<And>i p f. ctx_inv (insert i H) (c\<lparr>c_free := f, c_pool := p\<rparr>) \<Longrightarrow> i \<notin> H \<Longrightarrow> i \<notin> held c \<Longrightarrow>
      i < 32 \<Longrightarrow> length p = 32 \<Longrightarrow> t_next (p ! i) = None \<Longrightarrow> t_num_bytes (p ! i) = 0 \<Longrightarrow>
      t_data_start (p ! i) = 0xff \<Longrightarrow> (\<forall>j. j \<noteq> i \<longrightarrow> p ! j = c_pool c ! j) \<Longrightarrow>
      Q (Some i, c\<lparr>c_free := f, c_pool := p\<rparr>)"
  shows "wp E (transfer_alloc c) Q"
proof -
  have "owns c (held c \<union> H)" using inv by (simp add: ctx_inv_def)
  from transfer_alloc_spec [OF this] show ?thesis
  proof (elim disjE exE conjE)
    fix i c' assume 1: "transfer_alloc c = Inr (Some i, c')" "i < 32" "i \<notin> held c \<union> H"
      "c' = c\<lparr>c_free := t_next (c_pool c ! i), c_pool := (c_pool c)[i := transfer_init (c_pool c ! i)]\<rparr>"
      "owns c' (insert i (held c \<union> H))"
    have len: "length (c_pool c) = 32" using inv_lengths [OF inv] by simp
    have "t_next ((c_pool c)[i := transfer_init (c_pool c ! i)] ! j) = None" if "c_recving c = Some j" for j
      using that inv 1(2) len by (cases "i = j") (auto simp: ctx_inv_def)
    then have "ctx_inv (insert i H) c'"
      using inv 1(3,5) unfolding 1(4) by (auto simp: ctx_inv_def held_def ctx_ok_def Un_commute)
    then show ?thesis
      using 1 len by (auto intro!: some)
  qed (simp add: none)
qed

lemma alloc_cases:
  assumes "ctx_inv H c"
  obtains "c_free c = None" "transfer_alloc c = Inr (None, c)"
  | i p f where "transfer_alloc c = Inr (Some i, c\<lparr>c_free := f, c_pool := p\<rparr>)"
      "ctx_inv (insert i H) (c\<lparr>c_free := f, c_pool := p\<rparr>)" "i \<notin> H" "i \<notin> held c" "i < 32"
      "length p = 32" "t_next (p ! i) = None" "t_num_bytes (p ! i) = 0" "t_data_start (p ! i) = 0xff"
proof -
  have "wp no_error (transfer_alloc c) (\<lambda>x. x = (None, c) \<and> c_free c = None \<or>
      (\<exists>i p f. x = (Some i, c\<lparr>c_free := f, c_pool := p\<rparr>) \<and> ctx_inv (insert i H) (c\<lparr>c_free := f, c_pool := p\<rparr>)
        \<and> i \<notin> H \<and> i \<notin> held c \<and> i < 32 \<and> length p = 32 \<and> t_next (p ! i) = None
        \<and> t_num_bytes (p ! i) = 0 \<and> t_data_start (p ! i) = 0xff))"
    using assms by (rule wp_alloc) blast+
  then show thesis
    unfolding wp_no_error_iff using that by blast
qed

lemma inv_adopt_sending:
  "ctx_inv (insert i H) c \<Longrightarrow> i \<notin> H \<Longrightarrow> c_sending c = None \<Longrightarrow> ctx_inv H (c\<lparr>c_sending := Some i\<rparr>)"
  by (auto simp: ctx_inv_def held_def ctx_ok_def owns_def Un_commute)

lemma inv_adopt_recving:
  "ctx_inv (insert i H) c \<Longrightarrow> i \<notin> H \<Longrightarrow> c_recving c = None \<Longrightarrow> t_next (c_pool c ! i) = None \<Longrightarrow>
   ctx_inv H (c\<lparr>c_recving := Some i\<rparr>)"
  by (auto simp: ctx_inv_def held_def ctx_ok_def owns_def Un_commute)

lemma inv_steal_recving:
  "ctx_inv H c \<Longrightarrow> c_recving c = Some i \<Longrightarrow>
   ctx_inv (insert i H) (c\<lparr>c_recving := None\<rparr>) \<and> i \<notin> H \<and> t_next (c_pool c ! i) = None"
  by (auto simp: ctx_inv_def held_def ctx_ok_def owns_def Un_commute insert_commute)

lemma inv_drop_sending:
  "ctx_inv H c \<Longrightarrow> c_sending c = Some i \<Longrightarrow> \<not> transmitting (c_state c) \<Longrightarrow>
   ctx_inv (insert i H) (c\<lparr>c_sending := None\<rparr>) \<and> i \<notin> H"
  by (auto simp: ctx_inv_def held_def ctx_ok_def owns_def Un_commute insert_commute)

lemma wp_release:
  assumes inv: "ctx_inv (insert i H) c" "i \<notin> H"
    and Q: "\<And>p. ctx_inv H (c\<lparr>c_pool := p, c_free := Some i\<rparr>) \<Longrightarrow> length p = 32 \<Longrightarrow>
      (\<forall>j. j \<noteq> i \<longrightarrow> p ! j = c_pool c ! j) \<Longrightarrow> Q (c\<lparr>c_pool := p, c_free := Some i\<rparr>)"
  shows "wp E (transfer_release c (Some i)) Q"
proof -
  have len: "length (c_pool c) = 32" using inv_lengths [OF inv(1)] by simp
  have i: "i < 32" "i \<notin> held c" using inv_local [OF inv(1), of i] by simp_all
  let ?p = "(c_pool c)[i := (c_pool c ! i)\<lparr>t_next := c_free c\<rparr>]"
  have "owns (c\<lparr>c_pool := ?p, c_free := Some i\<rparr>) (held c \<union> insert i H - {i})"
    using inv(1) by (intro owns_release) (simp_all add: ctx_inv_def)
  moreover have "held c \<union> insert i H - {i} = held c \<union> H" using i inv(2) by auto
  moreover have "t_next (?p ! j) = None" if "c_recving c = Some j" for j
    using that inv(1) i(2) by (cases "i = j") (auto simp: ctx_inv_def held_def)
  ultimately have "ctx_inv H (c\<lparr>c_pool := ?p, c_free := Some i\<rparr>)"
    using inv(1) by (auto simp: ctx_inv_def held_def ctx_ok_def)
  then show ?thesis
    using i len by (auto simp: transfer_release_eq intro!: Q)
qed

lemma wp_release_sending:
  assumes "ctx_inv H c" "\<not> transmitting (c_state c)"
    and Q: "\<And>p f. ctx_inv H (c\<lparr>c_sending := None, c_pool := p, c_free := f\<rparr>) \<Longrightarrow>
      Q (c\<lparr>c_sending := None, c_pool := p, c_free := f\<rparr>)"
  shows "wp E (release_sending c) Q"
proof (cases "c_sending c")
  case None
  then have eq: "c\<lparr>c_sending := None, c_pool := c_pool c, c_free := c_free c\<rparr> = c" by simp
  show ?thesis
    using None Q [where p = "c_pool c" and f = "c_free c", unfolded eq] assms(1) by (simp add: release_sending_def)
next
  case (Some i)
  have len: "length (c_pool c) = 32" using inv_lengths [OF assms(1)] by simp
  have 1: "ctx_inv (insert i H) (c\<lparr>c_sending := None\<rparr>)" "i \<notin> H"
    using inv_drop_sending [OF assms(1) Some assms(2)] by simp_all
  have "wp E (transfer_release (c\<lparr>c_sending := None\<rparr>) (Some i)) Q"
    by (rule wp_release [OF 1]) (simp add: Q)
  moreover have "c\<lparr>c_sending := None, c_pool := p, c_free := f\<rparr> = c\<lparr>c_pool := p, c_free := f, c_sending := None\<rparr>"
    for p f by (cases c) simp
  ultimately show ?thesis
    using Some len inv_sending [OF assms(1) Some]
    by (simp add: release_sending_def transfer_release_eq)
qed

lemma wp_ensure_sending:
  assumes "ctx_inv H c" and E: "\<And>m. E (AssertFail m)"
    and Q: "\<And>i p f. ctx_inv H (c\<lparr>c_free := f, c_pool := p, c_sending := Some i\<rparr>) \<Longrightarrow>
      Q (c\<lparr>c_free := f, c_pool := p, c_sending := Some i\<rparr>)"
  shows "wp E (ensure_sending c) Q"
proof (cases "c_sending c")
  case None
  then show ?thesis
    by (simp add: ensure_sending_def)
      (rule wp_alloc [OF assms(1)]; simp add: inv_adopt_sending E Q)
next
  case (Some i)
  then have eq: "c\<lparr>c_free := c_free c, c_pool := c_pool c, c_sending := Some i\<rparr> = c" by simp
  show ?thesis
    using Some Q [where f = "c_free c" and p = "c_pool c" and i = i, unfolded eq] assms(1)
    by (simp add: ensure_sending_def)
qed

section \<open>Changes of a stream\<close>

lemma inv_upd_stream:
  assumes "ctx_inv H c" "\<And>s. s_received (f s) = s_received s" "stream_ok (c_stream c ! k) \<Longrightarrow> stream_ok (f (c_stream c ! k))"
  shows "ctx_inv H (upd_stream c k f)"
proof (cases "k < length (c_stream c)")
  case True
  have "owns (upd_stream c k f) (held c \<union> H)"
    using assms(1) unfolding owns_upd_stream [OF assms(2)] by (simp add: ctx_inv_def)
  moreover have "list_all stream_ok ((c_stream c)[k := f (c_stream c ! k)])"
    using assms(1,3) True by (intro list_all_update) (auto simp: ctx_inv_def ctx_ok_def list_all_length)
  ultimately show ?thesis
    using assms(1) by (simp add: ctx_inv_def held_def ctx_ok_def upd_stream_def)
qed (simp add: upd_stream_def list_update_beyond assms(1))

lemma stream_ok_simps [simp]:
  "stream_ok (s\<lparr>s_tst_lfsr := v1\<rparr>) = stream_ok s" "stream_ok (s\<lparr>s_dpi_lfsr := v1\<rparr>) = stream_ok s"
  "stream_ok (s\<lparr>s_dpi_rewind_lfsr := v1\<rparr>) = stream_ok s" "stream_ok (s\<lparr>s_retry_lfsr := v1\<rparr>) = stream_ok s"
  "stream_ok (s\<lparr>s_tst_seq := v2\<rparr>) = stream_ok s"
  "stream_ok (s\<lparr>s_sig_expected := v3\<rparr>) = stream_ok s" "stream_ok (s\<lparr>s_received := v4\<rparr>) = stream_ok s"
  by (simp_all add: stream_ok_def)

lemma upd_stream_frame [simp]:
  "c_sending (upd_stream c k f) = c_sending c" "c_recving (upd_stream c k f) = c_recving c"
  "c_state (upd_stream c k f) = c_state c" "c_ep_in (upd_stream c k f) = c_ep_in c"
  "c_ep_out (upd_stream c k f) = c_ep_out c" "c_dev_address (upd_stream c k f) = c_dev_address c"
  by (simp_all add: upd_stream_def)

lemma inv_pop:
  assumes "ctx_inv H c" "k < 15" "s_received (c_stream c ! k) = Some i"
  shows "i < 32 \<and> i \<notin> H \<and> i \<notin> held c \<and>
    ctx_inv (insert i H) (upd_stream c k (\<lambda>s. s\<lparr>s_received := t_next (c_pool c ! i)\<rparr>))"
proof -
  have len: "length (c_stream c) = 15" using inv_lengths [OF assms(1)] by simp
  have "owns c (held c \<union> H)" using assms(1) by (simp add: ctx_inv_def)
  from owns_pop [OF this _ assms(3)] len assms(2)
  have 1: "i < 32" "i \<notin> held c \<union> H"
    "owns (upd_stream c k (\<lambda>s. s\<lparr>s_received := t_next (c_pool c ! i)\<rparr>)) (insert i (held c \<union> H))"
    by simp_all
  have "list_all stream_ok ((c_stream c)[k := (c_stream c ! k)\<lparr>s_received := t_next (c_pool c ! i)\<rparr>])"
    using assms(1) inv_stream_ok [OF assms(1,2)]
    by (intro list_all_update) (simp_all add: ctx_inv_def ctx_ok_def)
  then show ?thesis
    using 1 assms(1) by (auto simp: ctx_inv_def held_def ctx_ok_def upd_stream_def Un_commute)
qed

lemma wp_queue_append:
  assumes inv: "ctx_inv (insert i H) c" "i \<notin> H" "k < 15" "t_next (c_pool c ! i) = None"
    and Q: "\<And>p ss. ctx_inv H (c\<lparr>c_pool := p, c_stream := ss\<rparr>) \<Longrightarrow> Q (c\<lparr>c_pool := p, c_stream := ss\<rparr>)"
  shows "wp E (queue_append c k (Some i)) Q"
proof -
  have len: "length (c_stream c) = 15" using inv_lengths [OF inv(1)] by simp
  have i: "i < 32" "i \<notin> held c" using inv_local [OF inv(1), of i] by simp_all
  have "owns c (insert i (held c \<union> H))" using inv(1) by (simp add: ctx_inv_def)
  from queue_append_spec [OF this _ _ inv(4), of k] len inv(3)
  obtain p ss where 1: "queue_append c k (Some i) = Inr (c\<lparr>c_pool := p, c_stream := ss\<rparr>)"
    "owns (c\<lparr>c_pool := p, c_stream := ss\<rparr>) (insert i (held c \<union> H) - {i})"
    "ss = c_stream c \<or> ss = (c_stream c)[k := (c_stream c ! k)\<lparr>s_received := Some i\<rparr>]"
    "\<forall>h \<in> insert i (held c \<union> H). p ! h = c_pool c ! h"
    by auto
  have "insert i (held c \<union> H) - {i} = held c \<union> H" using i inv(2) by auto
  moreover have "list_all stream_ok ss"
    using 1(3) inv(1) inv_stream_ok [OF inv(1,3)]
    by (auto simp: ctx_inv_def ctx_ok_def intro!: list_all_update)
  moreover have "length ss = 15" using 1(3) len by auto
  moreover have "t_next (p ! j) = None" if "c_recving c = Some j" for j
    using that 1(4) inv(1) by (auto simp: ctx_inv_def held_def)
  ultimately have "ctx_inv H (c\<lparr>c_pool := p, c_stream := ss\<rparr>)"
    using 1(2) inv(1) by (auto simp: ctx_inv_def held_def ctx_ok_def)
  then show ?thesis using 1(1) by (simp add: Q)
qed

section \<open>Packets\<close>

lemma wp_CRC16: "E OutOfBounds \<Longrightarrow> (\<And>x. Q x) \<Longrightarrow> wp E (CRC16 d n) Q"
  by (simp add: CRC16_def)

text \<open>Ending a data stage leaves a well-formed descriptor that is not empty.\<close>

lemma wp_data_end:
  assumes "length (t_data t) = 73"
    and Q: "\<And>t'. wf_transfer t' \<Longrightarrow> t_num_bytes t' \<noteq> 0 \<Longrightarrow> t_next t' = t_next t \<Longrightarrow> Q t'"
  shows "wp safe_error (transfer_data_end t dp) Q"
proof -
  have n: "unat (of_nat (dp + 2) :: u8) = dp + 2" if "dp < 71"
    using that by (intro unat_of_nat_small) simp
  have nz: "(of_nat (dp + 2) :: u8) \<noteq> 0" if "dp < 71"
    using n [OF that] by (metis add_is_0 unat_0 zero_neq_numeral)
  show ?thesis
    using assms(1) n nz
    by (auto simp: transfer_data_end_def wf_transfer_def simp del: of_nat_add intro!: wp_CRC16 Q)
qed

lemma wp_xor_loop:
  "length dst = 73 \<Longrightarrow>
   wp safe_error (stream_xor_loop n src i dst j lfsr) (\<lambda>(d, k, l). length d = 73)"
  by (induction n arbitrary: i j dst lfsr) auto

lemma length_transfer_data_start:
  "length (t_data t) = 73 \<Longrightarrow>
   wp safe_error (transfer_data_start t pid est) (\<lambda>(t', dp). length (t_data t') = 73 \<and> t_next t' = t_next t)"
  by (simp add: transfer_data_start_def Let_def)

lemma stream_reply_wf:
  assumes "wf_transfer t"
  shows "wp safe_error (stream_reply s pid n src sp t) (\<lambda>(t', l). wf_transfer t' \<and> t_num_bytes t' \<noteq> 0)"
proof -
  have loop: "wp safe_error (stream_xor_loop k src i d j lfsr)
      (\<lambda>x. case x of (d, dp, lfsr) \<Rightarrow> wp safe_error (transfer_data_end (t'\<lparr>t_data := d\<rparr>) dp)
        (\<lambda>x. wf_transfer x \<and> t_num_bytes x \<noteq> 0))" if "length d = 73" for t' k i d j lfsr
    by (rule wp_mono [OF wp_xor_loop [OF that]]) (auto intro!: wp_data_end)
  have "length (t_data t) = 73" using assms by (simp add: wf_transfer_def)
  then show ?thesis
    unfolding stream_reply_def
    by (simp add: case_prod_beta)
      (rule wp_mono [OF length_transfer_data_start [unfolded case_prod_beta]],
       auto simp: wp_nonnull split: option.split intro!: loop [unfolded case_prod_beta])
qed

text \<open>The reply to a received packet is a new descriptor, ready to be sent.\<close>

lemma stream_data_process_inv:
  assumes inv: "ctx_inv H c" and j: "j < 32" and k: "k < 15"
    and none: "\<And>c'. ctx_inv H c' \<Longrightarrow> c_sending c' = c_sending c \<Longrightarrow> Q (None, c')"
    and some: "\<And>i c'. ctx_inv (insert i H) c' \<Longrightarrow> i \<notin> H \<Longrightarrow> t_num_bytes (c_pool c' ! i) \<noteq> 0 \<Longrightarrow>
      c_sending c' = c_sending c \<Longrightarrow> Q (Some i, c')"
  shows "wp safe_error (stream_data_process c k (Some j)) Q"
proof (cases "transfer_data_field (c_pool c ! j)")
  case None
  then show ?thesis
    using j inv_lengths [OF inv] none [OF inv] by (simp add: stream_data_process_def get_tr_Some)
next
  case (Some sp)
  let ?s = "c_stream c ! k"
  have ep: "s_ep_out ?s < 0x10" using inv_stream_ok [OF inv k] by (simp add: stream_ok_def)
  have body: "wp safe_error
      (bnd (upd_tr c' (Some i) (\<lambda>r. transfer_token r USB_PID_OUT dev (s_ep_out ?s))) (\<lambda>c.
       bnd (arr_get (c_ep_out c) (unat (s_ep_out ?s))) (\<lambda>pid.
       bnd (get_tr c (Some j)) (\<lambda>t.
       bnd (get_tr c (Some i)) (\<lambda>r.
       bnd (stream_reply ?s pid n (t_data t) sp r) (\<lambda>(r, lfsr).
       bnd (upd_tr c (Some i) (\<lambda>_. Inr r)) (\<lambda>c.
         Inr (Some i, upd_stream c k (\<lambda>s. s\<lparr>s_dpi_rewind_lfsr := s_dpi_lfsr s,
                                               s_dpi_lfsr := lfsr\<rparr>))))))))) Q"
    if c': "ctx_inv (insert i H) c'" "i \<notin> H" "i < 32" "c_sending c' = c_sending c" "dev < 0x80"
    for i c' n dev
  proof -
    have len: "length (c_pool c') = 32" "length (c_ep_out c') = 16" using inv_lengths [OF c'(1)] by simp_all
    obtain t where t: "transfer_token (c_pool c' ! i) USB_PID_OUT dev (s_ep_out ?s) = Inr t"
      "wf_transfer t" "t_next t = None"
      using wf_transfer_token [OF inv_wf [OF c'(1,3)] c'(5) ep] unfolding wp_no_error_iff by blast
    have fin: "Q (Some i, upd_stream (c'\<lparr>c_pool := (c_pool c')[i := t]\<rparr>\<lparr>c_pool := (c_pool c')[i := r]\<rparr>) k
        (\<lambda>s. s\<lparr>s_dpi_rewind_lfsr := s_dpi_lfsr s, s_dpi_lfsr := l\<rparr>))"
      if "wf_transfer r" "t_num_bytes r \<noteq> 0" for r l
    proof -
      have "c_recving c' \<noteq> Some i" using c'(1) by (auto simp: ctx_inv_def held_def)
      then have "ctx_inv (insert i H) (c'\<lparr>c_pool := (c_pool c')[i := r]\<rparr>)"
        using that c' by (intro inv_write) simp_all
      then have "ctx_inv (insert i H) (upd_stream (c'\<lparr>c_pool := (c_pool c')[i := r]\<rparr>) k
          (\<lambda>s. s\<lparr>s_dpi_rewind_lfsr := s_dpi_lfsr s, s_dpi_lfsr := l\<rparr>))"
        by (rule inv_upd_stream) simp_all
      then show ?thesis using that(2) c' len by (intro some) simp_all
    qed
    show ?thesis
      using t len c'(3) j endpoint_unat [OF ep]
      by (simp add: upd_tr_Some get_tr_Some case_prod_beta)
        (rule wp_mono [OF stream_reply_wf [unfolded case_prod_beta]],
         use fin in \<open>auto simp: upd_tr_Some\<close>)
  qed
  show ?thesis
    using Some j k inv_lengths [OF inv] inv_dev [OF inv]
    by (simp add: stream_data_process_def get_tr_Some Let_def case_prod_beta)
      (rule wp_alloc [OF inv]; use none body in \<open>simp add: case_prod_beta if_bool_eq_conj\<close>)
qed

section \<open>Checking received packets\<close>

lemma stream_ep_in: "ctx_inv H c \<Longrightarrow> k < 15 \<Longrightarrow> unat (s_ep_in (c_stream c ! k)) < 16"
  using inv_stream_ok [of H c k] endpoint_unat [of "s_ep_in (c_stream c ! k)"] by (simp add: stream_ok_def)

lemma inv_seq_lfsr:
  "ctx_inv H c \<Longrightarrow> data_pid pid \<Longrightarrow>
   ctx_inv H (upd_stream (c\<lparr>c_ep_in := (c_ep_in c)[e := pid]\<rparr>) k (\<lambda>s. s\<lparr>s_tst_seq := f s, s_tst_lfsr := l\<rparr>))"
  by (intro inv_upd_stream inv_ep_in) simp_all

text \<open>Neither check touches the pool or the descriptors that are held.\<close>

definition same_owners :: "ctx \<Rightarrow> ctx \<Rightarrow> bool" where
  "same_owners c c' \<longleftrightarrow> c_pool c' = c_pool c \<and> c_free c' = c_free c \<and> c_sending c' = c_sending c
     \<and> c_recving c' = c_recving c \<and> c_state c' = c_state c"

lemma same_owners_refl [simp]: "same_owners c c"
  by (simp add: same_owners_def)

lemma wp_data_pid: "E (AssertFail ''data stage present'') \<Longrightarrow> E OutOfBounds \<Longrightarrow> (\<And>x. Q x) \<Longrightarrow> wp E (transfer_data_pid t) Q"
  by (simp add: transfer_data_pid_def)

lemma stream_sig_check_inv:
  assumes inv: "ctx_inv H c" and "j < 32" "k < 15"
  shows "wp safe_error (stream_sig_check c k (Some j)) (\<lambda>(ok, c'). ctx_inv H c' \<and> same_owners c c')"
  using assms inv_lengths [OF inv] stream_ep_in [OF inv assms(3)]
  by (auto simp: stream_sig_check_def get_tr_Some Let_def same_owners_def split: option.split
      intro!: wp_read_bytes wp_data_pid inv_seq_lfsr)

lemma wp_check_loop:
  "E OutOfBounds \<Longrightarrow> (\<And>x. Q x) \<Longrightarrow> wp E (stream_check_loop n data i lfsr ok) Q"
  by (induction n arbitrary: i lfsr ok) auto

lemma stream_data_check_inv:
  assumes inv: "ctx_inv H c" and "j < 32" "k < 15"
  shows "wp safe_error (stream_data_check c k (Some j) offset accept)
    (\<lambda>(ok, c'). ctx_inv H c' \<and> same_owners c c')"
proof -
  have lfsr: "ctx_inv H (upd_stream d k (\<lambda>s. s\<lparr>s_tst_lfsr := l\<rparr>))" if "ctx_inv H d" for d l
    using that by (intro inv_upd_stream) simp_all
  show ?thesis
    using assms inv_lengths [OF inv] stream_ep_in [OF inv assms(3)]
    by (simp add: stream_data_check_def get_tr_Some Let_def)
      (auto simp: same_owners_def intro!: wp_CRC16 wp_check_loop lfsr inv_ep_in)
qed

lemma ctx_log_inv:
  assumes "ctx_inv H c" "length msg < 80"
  shows "wp E (ctx_log c msg) (\<lambda>c'. ctx_inv H c' \<and> same_owners c c')"
proof -
  obtain m where m: "c_mon c = Some m" "monitor_ok m"
    using inv_ctx_ok [OF assms(1)] by (auto simp: ctx_ok_def)
  then have "monitor_ok (mon_printf m msg)" by (simp add: monitor_ok_def mon_printf_def)
  then show ?thesis
    using m assms by (simp add: ctx_log_def usb_monitor_log_def Let_def inv_mon same_owners_def)
qed

lemma retry_count_bound: "retry_count l \<le> 3"
  by (simp add: retry_count_def)

lemma nretries_pred: "n \<noteq> 0 \<Longrightarrow> n \<le> 3 \<Longrightarrow> n - 1 \<le> (3 :: u8)"
proof -
  assume "n \<noteq> 0" "n \<le> 3"
  then have "unat (n - 1) = unat n - 1" "unat n \<le> 3"
    by (simp_all add: unat_minus_one word_le_nat_alt)
  then show ?thesis by (simp add: word_le_nat_alt)
qed

lemma streams_decide_inv:
  assumes inv: "ctx_inv H c" and s: "s = c_stream c ! k"
  shows "wp E (streams_decide c k s t) (\<lambda>(accept, c'). ctx_inv H c' \<and> same_owners c c')"
proof -
  have 1: "ctx_inv H (upd_stream c k (\<lambda>s. s\<lparr>s_nretries := s_nretries s - 1\<rparr>))" if "s_nretries s \<noteq> 0"
    using inv by (rule inv_upd_stream) (use that s in \<open>simp_all add: stream_ok_def nretries_pred\<close>)
  have 2: "ctx_inv H (upd_stream c k (\<lambda>s. s\<lparr>s_nretries := retry_count (g s), s_retry_lfsr := f s\<rparr>))" for f g
    using inv by (rule inv_upd_stream) (simp_all add: stream_ok_def retry_count_bound)
  show ?thesis
    using inv 2 by (auto simp: streams_decide_def same_owners_def nl_def intro!: wp_mono [OF ctx_log_inv [OF 1]])
qed

text \<open>What the checks leave of the packet \<open>i\<close>: nothing, after a signature, or the packet.\<close>

definition checked :: "ctx \<Rightarrow> nat \<Rightarrow> nat option \<Rightarrow> ctx \<Rightarrow> bool" where
  "checked c i rx c' \<longleftrightarrow> c_sending c' = c_sending c \<and>
     (rx = None \<and> ctx_inv {} c'
      \<or> rx = Some i \<and> ctx_inv {i} c' \<and> t_next (c_pool c' ! i) = t_next (c_pool c ! i))"

lemma streams_check_sig_inv:
  assumes inv: "ctx_inv {i} c" and k: "k < 15"
  shows "wp safe_error (streams_check_sig c k (Some i)) (\<lambda>(rx, off, a, c'). checked c i rx c')"
proof -
  have i: "i < 32" using inv_local [OF inv, of i] by simp
  have release: "wp safe_error (transfer_release d (Some i)) (checked c i None)"
    if "ctx_inv {i} d" "same_owners c d" for d
    by (rule wp_release) (use that in \<open>auto simp: same_owners_def checked_def\<close>)
  show ?thesis
    using inv k inv_lengths [OF inv]
    by (auto simp: streams_check_sig_def checked_def same_owners_def
        intro!: wp_mono [OF stream_sig_check_inv [OF inv i k]] wp_mono [OF release])
qed

lemma streams_check_rest_inv:
  assumes c': "checked c i rx c'" and k: "k < 15"
  shows "wp safe_error (streams_check_rest c' k rx off acc) (\<lambda>(rx, a, c'). checked c i rx c')"
proof (cases rx)
  case (Some j)
  then have 1: "j = i" "ctx_inv {i} c'" "t_next (c_pool c' ! i) = t_next (c_pool c ! i)"
    "c_sending c' = c_sending c"
    using c' by (auto simp: checked_def)
  have i: "i < 32" using inv_local [OF 1(2), of i] by simp
  show ?thesis
    using 1 i inv_lengths [OF 1(2)] Some
    by (auto simp: streams_check_rest_def get_tr_Some checked_def same_owners_def
        intro!: wp_mono [OF stream_data_check_inv [OF 1(2) i k]])
qed (use c' in \<open>simp add: streams_check_rest_def\<close>)

lemma streams_check_inv:
  "ctx_inv {i} c \<Longrightarrow> k < 15 \<Longrightarrow>
   wp safe_error (streams_check c k (Some i)) (\<lambda>(rx, a, c'). checked c i rx c')"
  by (auto simp: streams_check_def intro!: wp_mono [OF streams_check_sig_inv] streams_check_rest_inv)

section \<open>The cases of \<open>streams_service\<close>\<close>

lemma inv_sig_seen: "ctx_inv H c \<Longrightarrow> ctx_inv H (upd_stream c k (\<lambda>s. s\<lparr>s_sig_expected := b\<rparr>))"
  by (rule inv_upd_stream) simp_all

text \<open>A packet that has been checked goes to the end of the queue or back to the pool.\<close>

lemma streams_store_inv:
  assumes "checked c i rx c'" "k < 15" "t_next (c_pool c ! i) = None"
  shows "wp E (streams_store c' k rx accept) (ctx_inv {})"
  using assms(1) unfolding checked_def
proof (elim conjE disjE)
  assume c': "c_sending c' = c_sending c" "rx = Some i" "ctx_inv {i} c'"
    "t_next (c_pool c' ! i) = t_next (c_pool c ! i)"
  show ?thesis
    using c' assms(2,3)
    by (auto simp: streams_store_def intro!: wp_queue_append [of i "{}"] wp_release [of i "{}"])
qed (simp add: streams_store_def)

lemma streams_respond_inv:
  "ctx_inv {} c \<Longrightarrow> wp assert_only (streams_respond c k s accept) (ctx_inv {})"
  by (cases "c_sending c") (auto simp: streams_respond_def Let_def intro!: wp_status inv_sig_seen)

lemma assert_only_safe: "assert_only e \<Longrightarrow> safe_error e"
  by (cases e) simp_all

lemma no_error_safe: "no_error e \<Longrightarrow> safe_error e"
  by simp

lemma streams_data_inv:
  assumes inv: "ctx_inv {} c" and k: "k < 15" and s: "s = c_stream c ! k"
  shows "wp safe_error (streams_data c k s) (ctx_inv {})"
proof (cases "c_recving c")
  case (Some i)
  have i: "i < length (c_pool c)" using inv_recving [OF inv Some] inv_lengths [OF inv] by simp
  define d where "d = c\<lparr>c_recving := None\<rparr>"
  have d: "ctx_inv {i} d" "t_next (c_pool d ! i) = None"
    using inv_steal_recving [OF inv Some] by (simp_all add: d_def)
  have finish: "wp safe_error (bnd (streams_store c' k rx a) (\<lambda>c. bnd (streams_respond c k s a) (\<lambda>c.
      Inr (c\<lparr>c_hostSt := HS_STREAMOUT\<rparr>)))) (ctx_inv {})"
    if "checked e i rx c'" "t_next (c_pool e ! i) = None" for e rx a c'
    unfolding wp_bnd
    by (rule wp_mono [OF streams_store_inv [OF that(1) k that(2)]],
        rule wp_weaken [OF streams_respond_inv]) (simp_all add: assert_only_safe)
  have check: "wp safe_error (if a then streams_check e k (Some i) else Inr (Some i, a, e))
      (\<lambda>(rx, a, c'). checked e i rx c')" if "ctx_inv {i} e" for a e
    using that by (auto simp: checked_def [of e i "Some i" e] intro: streams_check_inv [OF that k])
  have "wp safe_error (bnd (if a then streams_check e k (Some i) else Inr (Some i, a, e)) (\<lambda>(rx, a, c).
      bnd (streams_store c k rx a) (\<lambda>c. bnd (streams_respond c k s a) (\<lambda>c.
        Inr (c\<lparr>c_hostSt := HS_STREAMOUT\<rparr>))))) (ctx_inv {})"
    if e: "ctx_inv {i} e" "same_owners d e" for a e
  proof -
    have "t_next (c_pool e ! i) = None" using e(2) d(2) by (simp add: same_owners_def)
    note fin = finish [OF _ this]
    show ?thesis
      unfolding wp_bnd [of _ "if a then streams_check e k (Some i) else Inr (Some i, a, e)"]
      by (rule wp_mono [OF check [OF e(1)]]) (auto simp del: wp_bnd intro!: fin)
  qed
  then show ?thesis
    using i unfolding streams_data_def Some d_def [symmetric] Let_def get_tr_Some [OF i]
    by (auto simp del: wp_bnd simp: wp_bnd [of _ "streams_decide d k s (c_pool c ! i)"]
        intro!: wp_mono [OF streams_decide_inv [OF d(1)]]) (simp_all add: d_def s)
qed (simp add: streams_data_def)

lemma next_stream_bound:
  assumes "n \<le> 15"
  shows "(let j = i + 1; j = (if j \<ge> n then 0 else j) in j) < (15 :: u8)"
  using assms by (auto simp: Let_def not_le)

lemma out_stream_next_inv:
  assumes "ctx_inv H c"
  shows "ctx_inv H (snd (out_stream_next c)) \<and> fst (out_stream_next c) < 15
    \<and> same_owners c (snd (out_stream_next c)) \<and> c_stream (snd (out_stream_next c)) = c_stream c"
proof -
  have "c_nstreams c \<le> 15" using inv_ctx_ok [OF assms] by (simp add: ctx_ok_def)
  from next_stream_bound [OF this, of "c_stream_out c"] show ?thesis
    using assms by (auto simp: out_stream_next_def Let_def ctx_inv_def owns_def held_def ctx_ok_def
        same_owners_def word_less_nat_alt)
qed

lemma in_stream_next_inv:
  assumes "ctx_inv H c"
  shows "ctx_inv H (snd (in_stream_next c)) \<and> fst (in_stream_next c) < 15
    \<and> same_owners c (snd (in_stream_next c)) \<and> c_stream (snd (in_stream_next c)) = c_stream c"
proof -
  have "c_nstreams c \<le> 15" using inv_ctx_ok [OF assms] by (simp add: ctx_ok_def)
  from next_stream_bound [OF this, of "c_stream_in c"] show ?thesis
    using assms by (auto simp: in_stream_next_def Let_def ctx_inv_def owns_def held_def ctx_ok_def
        same_owners_def word_less_nat_alt)
qed

lemma inv_queue_head:
  "ctx_inv H c \<Longrightarrow> k < 15 \<Longrightarrow> s_received (c_stream c ! k) = Some i \<Longrightarrow> i < 32"
  using inv_pop [of H c k i] by blast

lemma wp_send_local:
  assumes "ctx_inv {i} c" "c_sending c = None" "t_num_bytes (c_pool c ! i) \<noteq> 0"
    and Q: "\<And>c'. ctx_inv {} c' \<Longrightarrow> Q c'"
  shows "wp E (transfer_send c (Some i)) Q"
proof -
  have i: "i < 32" using inv_local [OF assms(1), of i] by simp
  have "ctx_inv {} (c\<lparr>c_sending := Some i\<rparr>)"
    using assms(1,2) by (intro inv_adopt_sending) simp_all
  then have "ctx_inv {} (c\<lparr>c_sending := Some i\<rparr>\<lparr>c_state := ST_SYNC\<rparr>)"
    by (rule inv_state) simp
  then show ?thesis
    using i assms(2,3) inv_wf [OF assms(1) i] inv_lengths [OF assms(1)]
    by (simp add: transfer_send_def get_tr_Some wf_transfer_def word_neq_0_conv Q)
qed

lemma discard_inv:
  assumes inv: "ctx_inv H c" and k: "k < 15"
  shows "wp no_error (discard_received USBDPI_MAX_TRANSFERS c k) (ctx_inv H)"
proof -
  have o: "owns c (held c \<union> H)" using inv by (simp add: ctx_inv_def)
  have k': "k < length (c_stream c)" using k inv_lengths [OF inv] by simp
  obtain js where js: "lseg (c_pool c) (s_received (c_stream c ! k)) js" "distinct js" "length js \<le> 32"
    using owns_queue [OF o k'] by blast
  let ?c = "\<lambda>p f. upd_stream c k (\<lambda>s. s\<lparr>s_received := None\<rparr>)\<lparr>c_pool := p, c_free := f\<rparr>"
  obtain p f where 1: "discard_received 32 c k = Inr (?c p f)" "owns (?c p f) (held c \<union> H)"
    "\<forall>h \<in> held c \<union> H. p ! h = c_pool c ! h"
    using discard_received_spec [OF o k' js] by blast
  have "list_all stream_ok ((c_stream c)[k := (c_stream c ! k)\<lparr>s_received := None\<rparr>])"
    using inv inv_stream_ok [OF inv k] by (intro list_all_update) (simp_all add: ctx_inv_def ctx_ok_def)
  then have "ctx_inv H (?c p f)"
    using inv 1(2,3) by (auto simp: ctx_inv_def held_def ctx_ok_def upd_stream_def)
  then show ?thesis using 1(1) by simp
qed

lemma streams_reply_sent_inv:
  assumes "ctx_inv {i} c" "c_sending c = None" "t_num_bytes (c_pool c ! i) \<noteq> 0"
  shows "wp safe_error (bnd (out_bus_state ty) (\<lambda>bs.
      bnd (get_tr c (Some i)) (\<lambda>t.
      bnd (transfer_send (c\<lparr>c_bus_state := bs\<rparr>) (Some i)) (\<lambda>c.
        Inr (c\<lparr>c_wait := c_tick_bits c + (transfer_length t * 10 + 160),
               c_lastrxpid := 0, c_hostSt := HS_WAITACK\<rparr>))))) (ctx_inv {})"
  using assms inv_local [OF assms(1), of i] inv_lengths [OF assms(1)]
  by (auto simp: out_bus_state_def get_tr_Some intro!: wp_send_local)

lemma streams_out_inv:
  assumes inv: "ctx_inv {} c" and idle: "c_state c = ST_IDLE"
  shows "wp safe_error (streams_out c) (ctx_inv {})"
proof (cases "enough_time c")
  case True
  obtain k d where kd: "out_stream_next c = (k, d)" by fastforce
  then have d: "ctx_inv {} d" "k < 15" "same_owners c d"
    using out_stream_next_inv [OF inv] by simp_all
  let ?s = "c_stream d ! k"
  define e where "e = d\<lparr>c_hostSt := HS_STREAMIN\<rparr>"
  have e: "ctx_inv {} e" "\<not> transmitting (c_state e)" "c_stream e = c_stream d"
    using d idle by (simp_all add: e_def same_owners_def)
  have send: "wp safe_error (bnd (release_sending e) (\<lambda>c.
      bnd (stream_data_process c k (Some j)) (\<lambda>(reply, c).
      if reply = None then Inr c
      else
        bnd (out_bus_state ty) (\<lambda>bs. bnd (get_tr c reply) (\<lambda>t.
        bnd (transfer_send (c\<lparr>c_bus_state := bs\<rparr>) reply) (\<lambda>c.
          Inr (c\<lparr>c_wait := c_tick_bits c + (transfer_length t * 10 + 160),
                 c_lastrxpid := 0, c_hostSt := HS_WAITACK\<rparr>))))))) (ctx_inv {})"
    if j: "j < 32" for j ty
    unfolding wp_bnd [of _ "release_sending e"]
  proof (rule wp_release_sending [OF e(1,2)])
    fix p f assume c': "ctx_inv {} (e\<lparr>c_sending := None, c_pool := p, c_free := f\<rparr>)" (is "ctx_inv {} ?c")
    show "wp safe_error (bnd (stream_data_process ?c k (Some j)) (\<lambda>(reply, c).
        if reply = None then Inr c
        else
          bnd (out_bus_state ty) (\<lambda>bs. bnd (get_tr c reply) (\<lambda>t.
          bnd (transfer_send (c\<lparr>c_bus_state := bs\<rparr>) reply) (\<lambda>c.
            Inr (c\<lparr>c_wait := c_tick_bits c + (transfer_length t * 10 + 160),
                   c_lastrxpid := 0, c_hostSt := HS_WAITACK\<rparr>)))))) (ctx_inv {})"
      unfolding wp_bnd [of _ "stream_data_process ?c k (Some j)"]
      by (rule stream_data_process_inv [OF c' j d(2)])
        (simp_all del: wp_bnd add: streams_reply_sent_inv)
  qed
  have len: "k < length (c_stream d)" using d(2) inv_lengths [OF d(1)] by simp
  have discard: "wp safe_error (discard_received 32 e k) (ctx_inv {})"
    using wp_weaken [OF discard_inv [OF e(1) d(2)], of safe_error] by simp
  show ?thesis
  proof (cases "s_received ?s")
    case None
    then show ?thesis
      using True kd len e discard by (simp add: streams_out_def e_def [symmetric])
  next
    case (Some j)
    have "j < 32" using inv_queue_head [OF d(1,2) Some] .
    then show ?thesis
      using True kd len Some send discard
      by (simp add: streams_out_def e_def [symmetric] wp_bnd [of _ "arr_get _ _"] del: wp_bnd)
  qed
qed (simp add: streams_out_def inv)

lemma streams_acked_inv:
  assumes "ctx_inv H c"
  shows "wp assert_only (streams_acked c k s) (\<lambda>(accepted, c'). ctx_inv H c')"
proof -
  have "ctx_inv H (upd_stream c k (\<lambda>s. s\<lparr>s_dpi_lfsr := s_dpi_rewind_lfsr s\<rparr>))"
    using assms by (rule inv_upd_stream) simp_all
  then show ?thesis using assms by (simp add: streams_acked_def)
qed

lemma streams_retire_inv:
  assumes inv: "ctx_inv {} c" and k: "k < 15"
  shows "wp assert_only (streams_retire c k) (ctx_inv {})"
proof (cases "s_received (c_stream c ! k)")
  case None
  then show ?thesis using k inv_lengths [OF inv] by (simp add: streams_retire_def)
next
  case (Some i)
  let ?d = "upd_stream c k (\<lambda>s. s\<lparr>s_received := t_next (c_pool c ! i)\<rparr>)"
  have d: "ctx_inv {i} ?d" "i < 32" using inv_pop [OF inv k Some] by simp_all
  have ep: "unat (s_ep_out (c_stream c ! k)) < 16"
    using inv_stream_ok [OF inv k] endpoint_unat by (simp add: stream_ok_def)
  have toggle: "ctx_inv {} (d\<lparr>c_ep_out := (c_ep_out d)[e := DATA_TOGGLE_ADVANCE pid]\<rparr>)"
    if "ctx_inv {} d" for d e pid
    using that by (rule inv_ep_out) simp
  show ?thesis
    using k Some d(2) inv_lengths [OF inv] ep
    by (simp add: streams_retire_def get_tr_Some)
      (rule wp_release [OF d(1)]; use inv_lengths [OF inv] in \<open>auto dest: toggle\<close>)
qed

lemma streams_waitack_inv:
  assumes inv: "ctx_inv {} c" and idle: "c_state c = ST_IDLE"
  shows "wp assert_only (streams_waitack c) (ctx_inv {})"
proof -
  have k: "unat (c_stream_out c) < 15"
    using inv_ctx_ok [OF inv] by (simp add: ctx_ok_def word_less_nat_alt)
  have acked: "wp assert_only (bnd (streams_acked d (unat (c_stream_out c)) s) (\<lambda>(accepted, c').
      if accepted then streams_retire c' (unat (c_stream_out c)) else Inr c')) (ctx_inv {})"
    if "ctx_inv {} d" for d s
    unfolding wp_bnd
    by (rule wp_mono [OF streams_acked_inv [OF that]]) (auto intro!: streams_retire_inv [OF _ k])
  have "wp assert_only (release_sending c) (\<lambda>d.
      wp assert_only (bnd (streams_acked d (unat (c_stream_out c)) s) (\<lambda>(accepted, c').
        if accepted then streams_retire c' (unat (c_stream_out c)) else Inr c')) (ctx_inv {}))" for s
    using inv by (rule wp_release_sending) (simp_all add: idle acked del: wp_bnd)
  then show ?thesis
    using k inv_lengths [OF inv] by (simp add: streams_waitack_def Let_def)
qed

lemma inv_push_empty:
  assumes "ctx_inv (insert i H) c" "i \<notin> H" "k < 15" "s_received (c_stream c ! k) = None"
    "t_next (c_pool c ! i) = None"
  shows "ctx_inv H (upd_stream c k (\<lambda>s. s\<lparr>s_received := Some i\<rparr>))"
proof -
  have "wp no_error (queue_append c k (Some i)) (ctx_inv H)"
    by (rule wp_queue_append [OF assms(1-3,5)])
  then show ?thesis
    using assms(3,4) inv_lengths [OF assms(1)] by (simp add: queue_append_def)
qed

text \<open>A packet made up in place of a received one enters the stream's empty queue.\<close>

lemma generated_packet_inv:
  assumes inv: "ctx_inv {i} c" and k: "k < 15" and none: "s_received (c_stream c ! k) = None"
    and t: "t_next (c_pool c ! i) = None" "t_num_bytes (c_pool c ! i) = 0" and pid: "data_pid pid"
  shows "wp E (data_stage (c_pool c ! i) pid 64 (lfsr_bytes 64 l))
    (\<lambda>r. ctx_inv {} (upd_stream (upd_stream (c\<lparr>c_pool := (c_pool c)[i := r]\<rparr>) k
       (\<lambda>s. s\<lparr>s_tst_lfsr := g s\<rparr>)) k (\<lambda>s. s\<lparr>s_received := Some i\<rparr>)))"
proof -
  have i: "i < 32" "c_recving c \<noteq> Some i"
    using inv_local [OF inv, of i] by (auto simp: held_def)
  have "wp no_error (data_stage (c_pool c ! i) pid 64 (lfsr_bytes 64 l))
    (\<lambda>r. wf_transfer r \<and> unat (t_num_bytes r) = unat (t_num_bytes (c_pool c ! i)) + 3 + length (lfsr_bytes 64 l)
          \<and> t_next r = t_next (c_pool c ! i))"
    by (rule wf_data_stage) (use inv_wf [OF inv i(1)] pid t in \<open>simp_all add: data_pid_def\<close>)
  then show ?thesis
  proof (rule wp_weaken)
    fix r assume r: "wf_transfer r \<and> unat (t_num_bytes r) = unat (t_num_bytes (c_pool c ! i)) + 3
      + length (lfsr_bytes 64 l) \<and> t_next r = t_next (c_pool c ! i)"
    let ?d = "upd_stream (c\<lparr>c_pool := (c_pool c)[i := r]\<rparr>) k (\<lambda>s. s\<lparr>s_tst_lfsr := g s\<rparr>)"
    have "ctx_inv {i} ?d"
      using inv i r by (intro inv_upd_stream inv_write) simp_all
    then show "ctx_inv {} (upd_stream ?d k (\<lambda>s. s\<lparr>s_received := Some i\<rparr>))"
      by (rule inv_push_empty) (use r t none k i inv_lengths [OF inv] in simp_all)
  qed simp
qed

lemma stream_data_gen_inv:
  assumes inv: "ctx_inv {} c" and k: "k < 15" and none: "s_received (c_stream c ! k) = None"
  shows "wp E (bnd (stream_data_gen c k 64) (\<lambda>(tr, c).
      Inr (upd_stream c k (\<lambda>s. s\<lparr>s_received := tr\<rparr>)))) (ctx_inv {})"
proof -
  let ?s = "c_stream c ! k" and ?e = "unat (s_ep_in (c_stream c ! k))"
  have ep: "?e < 16" using stream_ep_in [OF inv k] .
  have len: "k < length (c_stream c)" "length (c_ep_in c) = 16" using k inv_lengths [OF inv] by simp_all
  have "?s\<lparr>s_received := None\<rparr> = ?s" using none by (cases ?s) simp
  then have same: "upd_stream c k (\<lambda>s. s\<lparr>s_received := None\<rparr>) = c" by (simp add: upd_stream_def)
  have pid: "data_pid (c_ep_in c ! ?e)" using inv_ep_in_pid [OF inv ep] .
  show ?thesis
  proof (cases rule: alloc_cases [OF inv])
    case (2 i p f)
    let ?d = "c\<lparr>c_free := f, c_pool := p\<rparr>\<lparr>c_ep_in := (c_ep_in c)[?e := DATA_TOGGLE_ADVANCE (c_ep_in c ! ?e)]\<rparr>"
    have "ctx_inv {i} ?d"
      using inv_ep_in [OF 2(2), of "DATA_TOGGLE_ADVANCE (c_ep_in c ! ?e)" ?e] by simp
    then have "wp E (data_stage (c_pool ?d ! i) (c_ep_in c ! ?e) 64 (lfsr_bytes 64 (s_tst_lfsr ?s)))
        (\<lambda>r. ctx_inv {} (upd_stream (upd_stream (?d\<lparr>c_pool := (c_pool ?d)[i := r]\<rparr>) k
       (\<lambda>s. s\<lparr>s_tst_lfsr := lfsr_after 64 (s_tst_lfsr s)\<rparr>)) k (\<lambda>s. s\<lparr>s_received := Some i\<rparr>)))"
      by (rule generated_packet_inv) (use k none 2 pid in simp_all)
    then show ?thesis
      using len ep 2 by (simp add: stream_data_gen_def upd_tr_Some Let_def)
  qed (simp add: stream_data_gen_def same inv)
qed

lemma streams_in_inv:
  assumes inv: "ctx_inv {} c" and idle: "c_state c = ST_IDLE"
  shows "wp safe_error (streams_in c) (ctx_inv {})"
proof (cases "enough_time c")
  case True
  obtain k d where kd: "in_stream_next c = (k, d)" by fastforce
  then have d: "ctx_inv {} d" "k < 15" using in_stream_next_inv [OF inv] by simp_all
  let ?s = "c_stream d ! k"
  have ep: "s_ep_in ?s < 0x10" using inv_stream_ok [OF d] by (simp add: stream_ok_def)
  have poll: "wp safe_error (ensure_sending d) (\<lambda>c.
      wp safe_error (put_token c (c_sending c) USB_PID_IN (c_dev_address c) (s_ep_in ?s)) (\<lambda>e.
      wp safe_error (transfer_send e (c_sending c)) (\<lambda>e.
      wp safe_error (in_bus_state (s_xfr_type ?s)) (\<lambda>bs. ctx_inv {} e))))"
    by (rule wp_ensure_sending [OF d(1)])
      (auto intro!: txn_intros simp: inv_dev [OF d(1)] ep in_bus_state_def)
  have gen: "wp safe_error (bnd (stream_data_gen d k 64) (\<lambda>(tr, c).
      Inr (upd_stream c k (\<lambda>s. s\<lparr>s_received := tr\<rparr>)))) (ctx_inv {})" if "s_received ?s = None"
    using stream_data_gen_inv [OF d that] .
  show ?thesis
    using True kd d inv_lengths [OF d(1)] poll gen
    by (simp add: streams_in_def put_token_def [symmetric] Let_def assert_only_safe)
qed (simp add: streams_in_def inv)

lemma streams_ackifdata_inv:
  assumes inv: "ctx_inv {} c"
  shows "wp safe_error (streams_ackifdata c) (ctx_inv {})"
proof -
  have k: "unat (c_stream_in c) < 15"
    using inv_ctx_ok [OF inv] by (simp add: ctx_ok_def word_less_nat_alt)
  then show ?thesis
    using inv inv_lengths [OF inv]
    by (auto simp: streams_ackifdata_def streams_got_reply_def Let_def intro!: streams_data_inv)
qed

theorem streams_service_inv:
  assumes "ctx_inv {} c" "c_state c = ST_IDLE"
  shows "wp safe_error (streams_service c) (ctx_inv {})"
  using assms streams_out_inv [OF assms] streams_in_inv [OF assms] streams_ackifdata_inv [OF assms(1)]
    wp_weaken [OF streams_waitack_inv [OF assms], of safe_error]
  by (cases "c_hostSt c") (simp_all add: streams_service_def assert_only_safe)

end
