(* ===== verification/Host_Inv.thy ===== *)
theory Host_Inv
  imports Stream_Inv
begin

text \<open>
  The entry points keep the invariant: the reception callback, and through the monitor's
  interface every call of the monitor, the frame timer, each step of the test sequence,
  the line driver and the handling of the device's signals.
\<close>

section \<open>Reception\<close>

lemma wp_data_start_wf:
  assumes "wf_transfer t"
  shows "wp safe_error (transfer_data_start t pid est) (\<lambda>(t', dp). wf_transfer t' \<and> t_next t' = t_next t)"
proof -
  have "unat (t_num_bytes t + 1) = unat (t_num_bytes t) + 1" if "unat (t_num_bytes t) \<le> 73"
    using that by (simp add: unat_word_ariths)
  then show ?thesis
    using assms by (auto simp: transfer_data_start_def Let_def wf_transfer_def)
qed

lemma unat_sub_ucast_64:
  "unat (b :: u8) \<le> 73 \<Longrightarrow> unat (73 - ucast b :: 64 word) = 73 - unat b"
proof -
  assume "unat b \<le> 73"
  then have "(ucast b :: 64 word) \<le> 73" by (simp add: word_le_nat_alt unat_ucast_up)
  then show ?thesis by (simp add: unat_sub unat_ucast_up)
qed

lemma transfer_append_wf:
  assumes "wf_transfer t"
  shows "wp no_error (transfer_append t [d])
    (\<lambda>(ok, t'). wf_transfer t' \<and> t_next t' = t_next t \<and> ok = (unat (t_num_bytes t) < 73))"
proof -
  have n: "unat (t_num_bytes t) \<le> 73" using assms by (simp add: wf_transfer_def)
  have "(73 - ucast (t_num_bytes t) < (1 :: 64 word)) = (73 \<le> unat (t_num_bytes t))"
    using unat_sub_ucast_64 [OF n] n by (auto simp: word_less_nat_alt)
  moreover have "unat (t_num_bytes t + 1) = unat (t_num_bytes t) + 1"
    using n by (simp add: unat_word_ariths)
  ultimately show ?thesis
    using assms by (auto simp: transfer_append_def Let_def wf_transfer_def)
qed

text \<open>One more item of a packet in the descriptor that receives it.\<close>

lemma receive_wf:
  assumes "wf_transfer t" "t_next t = None"
  shows "wp safe_error (case type of
       UsbMon_DataType_Sync \<Rightarrow> Inr (True, transfer_init t)
     | UsbMon_DataType_EOP \<Rightarrow> Inr (True, t)
     | UsbMon_DataType_PID \<Rightarrow>
         if d = USB_PID_DATA0 \<or> d = USB_PID_DATA1
         then bnd (transfer_data_start t d 0) (\<lambda>(t, dp). Inr (dp \<noteq> None, t))
         else transfer_append t [d]
     | UsbMon_DataType_Byte \<Rightarrow> transfer_append t [d]) (\<lambda>x. wf_transfer (snd x) \<and> t_next (snd x) = None)"
proof -
  have app: "wp safe_error (transfer_append t [d]) (\<lambda>x. wf_transfer (snd x) \<and> t_next (snd x) = None)"
    by (rule wp_weaken [OF transfer_append_wf [OF assms(1)]]) (use assms(2) in auto)
  show ?thesis
    using assms app
    by (auto simp: case_prod_beta split: mon_data_type.split
        intro!: wp_mono [OF wp_data_start_wf [OF assms(1)]])
qed

lemma usbdpi_data_callback_inv:
  assumes inv: "ctx_inv {} c"
  shows "wp safe_error (usbdpi_data_callback type d c) (ctx_inv {})"
proof (cases "c_state c = ST_GET")
  case True
  have rest: "wp safe_error
      (bnd (cassert ''tr'' (c_recving e \<noteq> None)) (\<lambda>_. bnd (get_tr e (c_recving e)) (\<lambda>t.
       bnd (case type of
         UsbMon_DataType_Sync \<Rightarrow> Inr (True, transfer_init t)
       | UsbMon_DataType_EOP \<Rightarrow> Inr (True, t)
       | UsbMon_DataType_PID \<Rightarrow>
           if d = USB_PID_DATA0 \<or> d = USB_PID_DATA1
           then bnd (transfer_data_start t d 0) (\<lambda>(t, dp). Inr (dp \<noteq> None, t))
           else transfer_append t [d]
       | UsbMon_DataType_Byte \<Rightarrow> transfer_append t [d]) (\<lambda>(ok, t).
       bnd (upd_tr e (c_recving e) (\<lambda>_. Inr t)) (\<lambda>c. bnd (cassert ''ok'' ok) (\<lambda>_. Inr c)))))) (ctx_inv {})"
    if e: "ctx_inv {} e" for e
  proof (cases "c_recving e")
    case (Some i)
    have i: "i < 32" "i < length (c_pool e)" "i \<in> held e"
      using inv_recving [OF e Some] inv_lengths [OF e] by simp_all
    have t: "wf_transfer (c_pool e ! i)" "t_next (c_pool e ! i) = None"
      using inv_wf [OF e i(1)] e Some by (auto simp: ctx_inv_def)
    have wr: "ctx_inv {} (e\<lparr>c_pool := (c_pool e)[i := r]\<rparr>)" if "wf_transfer r" "t_next r = None" for r
      using e i that by (intro inv_write) auto
    show ?thesis
      unfolding Some get_tr_Some [OF i(2)] bnd_Inr
      by (simp only: wp_bnd wp_cassert option.distinct simp_thms if_True)
        (rule wp_mono [OF receive_wf [OF t]], use i(2) wr in \<open>auto simp: upd_tr_Some\<close>)
  qed simp
  show ?thesis
  proof (cases "c_recving c")
    case None
    show ?thesis
    proof (cases rule: alloc_cases [OF inv])
      case 1
      then show ?thesis
        using rest [OF inv] True None by (simp add: usbdpi_data_callback_def Let_def del: wp_bnd)
    next
      case (2 i p f)
      have "ctx_inv {} (c\<lparr>c_free := f, c_pool := p\<rparr>\<lparr>c_recving := Some i\<rparr>)"
        using 2 None by (intro inv_adopt_recving) simp_all
      from rest [OF this] show ?thesis
        using True None 2(1) by (simp add: usbdpi_data_callback_def Let_def del: wp_bnd)
    qed
  next
    case (Some i)
    then show ?thesis
      using rest [OF inv] True by (simp add: usbdpi_data_callback_def Let_def del: wp_bnd)
  qed
qed (simp add: usbdpi_data_callback_def inv)

section \<open>The monitor with the host model as its client\<close>

interpretation host_client: monitor_client usbdpi_data_callback "\<lambda>pid c. c\<lparr>c_lastrxpid := pid\<rparr>"
  "ctx_inv {}" safe_error
  by unfold_locales (simp_all add: usbdpi_data_callback_inv)

lemma host_monitor_inv:
  assumes "ctx_inv {} c"
  shows "wp safe_error (host_monitor c d2p) (ctx_inv {})"
proof -
  obtain m where m: "c_mon c = Some m" "monitor_ok m"
    using inv_ctx_ok [OF assms] by (auto simp: ctx_ok_def)
  show ?thesis
    unfolding host_monitor_def m(1) wp_bnd
    by (rule wp_mono [OF host_client.monitor_keeps]) (use m(2) assms in \<open>auto intro: inv_mon\<close>)
qed

section \<open>Frames and steps\<close>

lemma bus_reset_inv:
  assumes "ctx_inv H c"
  shows "ctx_inv H (bus_reset c)"
  using assms by (simp add: bus_reset_def ctx_inv_def owns_def held_def ctx_ok_def list_all_length)

lemma seq_next_inv: "ctx_inv H c \<Longrightarrow> ctx_inv H (snd (usbdpi_test_seq_next c step))"
  by (simp add: usbdpi_test_seq_next_def)

lemma seq_next_step: "step \<le> 0x7f \<Longrightarrow> fst (usbdpi_test_seq_next c step) \<le> 0x7f"
proof -
  assume "step \<le> 0x7f"
  then have "step + 1 \<le> 0x7f" if "step \<noteq> 0x7f"
    using that by (metis inc_le order_le_imp_less_or_eq)
  then show ?thesis by (simp add: usbdpi_test_seq_next_def default_seq_next_def)
qed

text \<open>The third attempt without a response fails the assertion, so at most two are counted.\<close>

lemma frame_advance_inv: "ctx_inv H c \<Longrightarrow> wp assert_only (frame_advance c) (ctx_inv H)"
proof -
  assume inv: "ctx_inv H c"
  then have "c_step c \<le> 0x7f" by (simp add: ctx_inv_def ctx_ok_def)
  then have "ctx_inv H (snd (usbdpi_test_seq_next c (c_step c))
      \<lparr>c_step := fst (usbdpi_test_seq_next c (c_step c)), c_num_tries := 0\<rparr>)"
    using inv by (intro inv_step inv_num_tries seq_next_inv seq_next_step) simp_all
  then show ?thesis
    using inv by (auto simp: frame_advance_def case_prod_beta Let_def intro: inv_num_tries)
qed

lemma transfer_frame_start_inv:
  assumes "ctx_inv {} c" "c_sending c = Some i"
  shows "wp E (transfer_frame_start c (Some i) frame) (\<lambda>c'. ctx_inv {} c' \<and> c_sending c' = Some i)"
proof -
  have "unat (frame AND 0x7f) < 128" "unat (drop_bit 7 frame AND 15) < 16"
    by (rule unat_and_less, simp)+
  then have b: "to_u8 (frame AND 0x7f) < 0x80" "to_u8 (drop_bit 7 frame AND 15) < 0x10"
    by (simp_all add: word_less_nat_alt unsigned_ucast_eq take_bit_nat_eq_self)
  have "wp E (put_token c (Some i) USB_PID_SOF (to_u8 (frame AND 0x7f)) (to_u8 (drop_bit 7 frame AND 15)))
      (\<lambda>c. wp E (transfer_send c (Some i)) (\<lambda>c'. ctx_inv {} c' \<and> c_sending c' = Some i))"
    using assms b by (intro wp_put_token wp_send conjI) simp_all
  then show ?thesis by (simp add: transfer_frame_start_def put_token_def)
qed

lemma host_frame_inv:
  assumes inv: "ctx_inv {} c"
  shows "wp assert_only (host_frame c) (ctx_inv {})"
proof -
  define d where "d = c\<lparr>c_framepend := False, c_frame := c_frame c + 1, c_frame_start := c_tick_bits c\<rparr>"
  have d: "ctx_inv {} d" using inv by (simp add: d_def)
  have sof: "wp assert_only (ensure_sending d) (\<lambda>c.
      wp assert_only (transfer_frame_start c (c_sending c) (to_u32 (c_frame c))) (\<lambda>c.
      wp assert_only (frame_advance (c\<lparr>c_state := ST_SYNC\<rparr>)) (ctx_inv {})))"
  proof (rule wp_ensure_sending [OF d])
    fix i p f assume e: "ctx_inv {} (d\<lparr>c_free := f, c_pool := p, c_sending := Some i\<rparr>)" (is "ctx_inv {} ?e")
    have "wp assert_only (transfer_frame_start ?e (Some i) (to_u32 (c_frame ?e))) (\<lambda>c.
        wp assert_only (frame_advance (c\<lparr>c_state := ST_SYNC\<rparr>)) (ctx_inv {}))"
      by (rule wp_mono [OF transfer_frame_start_inv [OF e]]) (auto intro!: frame_advance_inv inv_state)
    then show "wp assert_only (transfer_frame_start ?e (c_sending ?e) (to_u32 (c_frame ?e))) (\<lambda>c.
        wp assert_only (frame_advance (c\<lparr>c_state := ST_SYNC\<rparr>)) (ctx_inv {}))" by simp
  qed simp
  have idle: "wp assert_only (frame_advance (d\<lparr>c_state := ST_IDLE\<rparr>)) (ctx_inv {})"
    using d by (intro frame_advance_inv inv_state) simp_all
  show ?thesis
    using sof idle inv unfolding host_frame_def Let_def d_def [symmetric]
    by simp
qed

lemma step_bus_reset_inv: "ctx_inv H c \<Longrightarrow> ctx_inv H (step_bus_reset c d2p)"
  using bus_reset_inv [of H c] by (simp add: step_bus_reset_def Let_def)

lemma host_dispatch_inv:
  assumes e: "ctx_inv {} c" and s: "c_sending c = Some i" "c_state c = ST_IDLE"
  shows "wp safe_error (host_dispatch c d2p) (ctx_inv {})"
proof -
  note ops = setDeviceAddress_inv [OF e s(1)] getDescriptor_inv [OF e s(1)]
    setDeviceConfiguration_inv [OF e s(1)] getTestConfig_inv [OF e s(1)] pollRX_inv [OF e s(1)]
    readBaud_inv [OF e s(1)] setBaud_inv [OF e s(1)] tryTX_inv [OF e s(1)] testUnimplEp_inv [OF e s(1)]
    streams_service_inv [OF e s(2)] step_bus_reset_inv [OF e] inv_dev [OF e]
  have "wp safe_error (getDescriptor (c\<lparr>c_cfg_desc_len := n\<rparr>) ty ix l) (ctx_inv {})" for n ty ix l
    by (rule getDescriptor_inv) (use e s in simp_all)
  then show ?thesis
    using e ops by (simp add: host_dispatch_def Let_def setTestStatus_def testIso_def)
qed

lemma host_step_inv:
  assumes "ctx_inv {} c" "c_state c = ST_IDLE"
  shows "wp safe_error (host_step c d2p) (ctx_inv {})"
  unfolding host_step_def wp_bnd
  by (rule wp_ensure_sending [OF assms(1)]) (use assms(2) in \<open>auto intro: host_dispatch_inv\<close>)

section \<open>The line driver\<close>

lemma inv_transmitting: "ctx_inv H c \<Longrightarrow> transmitting (c_state c) \<Longrightarrow> c_sending c \<noteq> None"
  by (simp add: ctx_inv_def)

lemma drive_sync_inv:
  "ctx_inv H c \<Longrightarrow> c_state c = ST_SYNC \<Longrightarrow> ctx_inv H (snd (drive_sync c d2p))"
  using inv_transmitting [of H c] by (simp add: drive_sync_def Let_def inv_state)

lemma drive_send_inv:
  assumes inv: "ctx_inv {} c" and st: "c_state c = ST_SEND"
  shows "wp no_error (drive_send c d2p) (\<lambda>x. ctx_inv {} (snd x))"
proof -
  obtain i where i: "c_sending c = Some i" using inv st by (auto simp: ctx_inv_def)
  have len: "i < length (c_pool c)" using inv_sending [OF inv i] inv_lengths [OF inv] by simp
  have wf: "wf_transfer (c_pool c ! i)" using inv_wf [OF inv] inv_sending [OF inv i] by simp
  have state: "ctx_inv {} (d\<lparr>c_state := s\<rparr>)" if "ctx_inv {} d" "c_sending d = Some i" for d s
    using that by (intro inv_state) simp_all
  show ?thesis
    using i len wf inv state [OF inv i] state
    by (auto simp: drive_send_def Let_def get_tr_Some wf_transfer_def)
qed

lemma drive_eop0_inv:
  "ctx_inv H c \<Longrightarrow> c_state c = ST_EOP0 \<Longrightarrow> ctx_inv H (snd (drive_eop0 c d2p))"
  using inv_transmitting [of H c] by (simp add: drive_eop0_def inv_state)

lemma drive_eop_inv:
  assumes inv: "ctx_inv {} c" and st: "c_state c = ST_EOP"
  shows "wp no_error (drive_eop c d2p) (\<lambda>x. ctx_inv {} (snd x))"
proof -
  obtain i where i: "c_sending c = Some i" using inv st by (auto simp: ctx_inv_def)
  have len: "i < length (c_pool c)" using inv_sending [OF inv i] inv_lengths [OF inv] by simp
  have state: "ctx_inv {} (d\<lparr>c_state := s\<rparr>)" if "ctx_inv {} d" "c_sending d = Some i" for d s
    using that by (intro inv_state) simp_all
  show ?thesis
    using i len inv state by (auto simp: drive_eop_def Let_def get_tr_Some)
qed

lemma host_drive_inv:
  assumes "ctx_inv {} c"
  shows "wp safe_error (host_drive c d2p) (\<lambda>x. ctx_inv {} (snd x))"
  using assms host_step_inv [OF assms, of d2p] drive_sync_inv [OF assms, of d2p]
    wp_weaken [OF drive_send_inv [OF assms], of safe_error] drive_eop0_inv [OF assms, of d2p]
    wp_weaken [OF drive_eop_inv [OF assms], of safe_error]
  by (cases "c_state c") (simp_all add: host_drive_def)

section \<open>The entry points\<close>

lemma length_decode_usb: "length (decode_usb dp dn) = 3"
  by (simp add: decode_usb_def)

lemma length_p2d_message: "length (p2d_message c) < 80"
  using length_hex_left_u16 [of "c_frame c"] length_hex_u32 [of "c_tick_bits c"]
  by (auto simp: p2d_message_def pad_left_def length_decode_usb nl_def)

lemma length_d2p_message: "length (d2p_message c d2p) < 80"
  using length_hex_left_u16 [of "c_frame c"] length_hex_left_u32 [of "c_tick_bits c"] length_hex_u32 [of d2p]
  by (auto simp: d2p_message_def raw_str_def length_decode_usb nl_def)

lemma length_pullup_message: "length (pullup_message c d2p) < 80"
  using length_hex_left_u16 [of "c_frame c"] length_hex_left_u32 [of "c_tick_bits c"]
  by (auto simp: pullup_message_def nl_def)

lemma usbdpi_device_to_host_inv:
  assumes inv: "ctx_inv {} c"
  shows "wp E (usbdpi_device_to_host c d2p) (ctx_inv {})"
proof -
  have body: "wp E (bnd (if d2p AND D2P_PU \<noteq> c_last_pu e
           then bnd (ctx_log e (pullup_message e d2p)) (\<lambda>c. Inr (c\<lparr>c_last_pu := d2p AND D2P_PU\<rparr>))
           else Inr e) (\<lambda>c.
      bnd (if has (c_loglevel c) LOG_BIT then ctx_log c (d2p_message c d2p) else Inr c) (\<lambda>c.
        Inr (if c_state c = ST_GET \<and> \<not> dp \<and> \<not> dn
             then c\<lparr>c_bus_state := eop_bus_state (c_bus_state c)\<rparr> else c)))) (ctx_inv {})"
    if e: "ctx_inv {} e" for e dp dn
  proof -
    have msg: "wp E (if has (c_loglevel d) LOG_BIT then ctx_log d (d2p_message d d2p) else Inr d) (ctx_inv {})"
      if "ctx_inv {} d" for d
      using that by (auto intro!: wp_mono [OF ctx_log_inv [OF that length_d2p_message]])
    have pu: "wp E (if d2p AND D2P_PU \<noteq> c_last_pu e
           then bnd (ctx_log e (pullup_message e d2p)) (\<lambda>c. Inr (c\<lparr>c_last_pu := d2p AND D2P_PU\<rparr>))
           else Inr e) (ctx_inv {})"
      using e by (auto intro!: wp_mono [OF ctx_log_inv [OF e length_pullup_message]])
    show ?thesis
      unfolding wp_bnd
      by (rule wp_mono [OF pu], rule wp_mono [OF msg], assumption) simp
  qed
  have "ctx_inv {} (if has d2p (D2P_DP_EN OR D2P_DN_EN OR D2P_D_EN)
               then (if c_state c = ST_IDLE then c\<lparr>c_state := ST_GET\<rparr> else c)
               else (if c_state c = ST_GET then c\<lparr>c_state := ST_IDLE\<rparr> else c))"
    using inv by (auto intro: inv_state)
  then show ?thesis
    unfolding usbdpi_device_to_host_def Let_def by (rule body)
qed

lemma host_active_inv:
  assumes inv: "ctx_inv {} c"
  shows "wp safe_error (host_active c d2p last_driving) (ctx_inv {})"
proof -
  have log: "wp safe_error (if b then ctx_log e (p2d_message e) else Inr e) (ctx_inv {})"
    if "ctx_inv {} e" for e b
    using that by (auto intro!: wp_mono [OF ctx_log_inv [OF that length_p2d_message]])
  show ?thesis
    unfolding host_active_def wp_bnd
    by (rule wp_weaken [OF host_frame_inv [OF inv]], erule assert_only_safe,
        rule wp_mono [OF host_drive_inv], assumption) (simp add: case_prod_beta log)
qed

lemma host_bit_inv:
  assumes "ctx_inv {} c"
  shows "wp safe_error (host_bit c d2p last_driving) (ctx_inv {})"
  using assms bus_reset_inv [of "{}" c] bus_reset_inv [of "{}" "c\<lparr>c_driving := c_driving c OR P2D_SENSE\<rparr>"]
  by (simp add: host_bit_def Let_def inv_state host_active_inv)

lemma usbdpi_host_to_device_inv:
  assumes "ctx_inv {} c"
  shows "wp safe_error (usbdpi_host_to_device c d2p) (\<lambda>x. ctx_inv {} (snd x))"
  unfolding usbdpi_host_to_device_def Let_def
  using assms by (simp add: wp_mono [OF host_monitor_inv wp_mono [OF host_bit_inv]])

lemma usbdpi_create_inv: "ctx_inv {} (usbdpi_create loglevel True)"
proof -
  define c where "c = bus_reset zero_ctx\<lparr>c_loglevel := loglevel, c_mon := usb_monitor_init True\<rparr>"
  have "length (c_pool c) = 32" "list_all wf_transfer (c_pool c)" "list_all (\<lambda>s. s_received s = None) (c_stream c)"
    by (simp_all add: c_def bus_reset_def zero_ctx_def list_all_length zero_stream_def)
  from usb_transfer_setup_spec [OF this] obtain p f where
    1: "usb_transfer_setup c = c\<lparr>c_pool := p, c_free := f\<rparr>" "owns (c\<lparr>c_pool := p, c_free := f\<rparr>) {}"
    by blast
  have "ctx_inv {} (c\<lparr>c_pool := p, c_free := f\<rparr>)"
    using 1(2) by (simp add: ctx_inv_def held_def ctx_ok_def c_def bus_reset_def zero_ctx_def
        list_all_length usb_monitor_init_def monitor_ok_def stream_ok_def zero_stream_def)
  then show ?thesis
    using 1(1) by (simp add: usbdpi_create_def Let_def c_def)
qed

end
