(* ===== verification/Diagnostics.thy ===== *)
theory Diagnostics
  imports Host_Inv
begin

text \<open>
  The diagnostics of \<open>usbdpi_diags\<close>: the assertions of the function hold in every state that
  satisfies the invariant, and the fields of the packed words are read back by the layout
  that \<open>usbdpi.sv\<close> declares for them.
\<close>

lemma drv_state_code_bits: "4 \<le> k \<Longrightarrow> \<not> bit (drv_state_code s) k"
  by (rule less_power_bits [where n = 4]) (cases s; simp)+

lemma host_state_code_bits: "5 \<le> k \<Longrightarrow> \<not> bit (host_state_code s) k"
  by (rule less_power_bits [where n = 5]) (cases s; simp)+

lemma bus_state_code_bits: "5 \<le> k \<Longrightarrow> \<not> bit (bus_state_code s) k"
  by (rule less_power_bits [where n = 5]) (cases s; simp)+

lemma drv_state_code_le: "drv_state_code s \<le> 0xf"
  by (cases s) simp_all

lemma host_state_code_le: "host_state_code s \<le> 0x1f"
  by (cases s) simp_all

lemma bus_state_code_le: "bus_state_code s \<le> 0x3f"
  by (cases s) simp_all

lemma and_masks:
  "x AND 0xf = take_bit 4 x" "x AND 0x1f = take_bit 5 x" "x AND 0x7ff = take_bit 11 x"
  for x :: u32
  by (simp_all add: take_bit_eq_mask mask_numeral)

lemma monitor_diags_total:
  assumes "monitor_ok m"
  shows "\<exists>w. usb_monitor_diags (Some m) = Inr w \<and> take_bit 8 w = to_u32 (m_lastpid m)"
proof -
  have "take_bit 8 (to_u32 (m_lastpid m) OR push_bit 8 v OR push_bit 16 x OR push_bit 20 y) = to_u32 (m_lastpid m)"
    for v x y by (rule bit_word_eqI) (auto simp: bit_simps dest: bit_imp_le_length)
  from this [of 0] this show ?thesis
    using assms by (auto simp: usb_monitor_diags_def monitor_ok_def)
qed

lemma diags_fields:
  fixes frame :: u16
  assumes "step \<le> (0x7f :: u32)"
    and d0: "d0 = push_bit 20 t OR push_bit 9 (to_u32 frame AND 0x7ff)
              OR push_bit 4 (host_state_code h AND 0x1f) OR (drv_state_code s AND 0xf)"
    and d1: "d1 = push_bit 25 step OR push_bit 20 (bus_state_code b) OR drop_bit 12 t"
  shows "take_bit 4 d0 = drv_state_code s \<and> take_bit 5 (drop_bit 4 d0) = host_state_code h
    \<and> take_bit 11 (drop_bit 9 d0) = take_bit 11 (to_u32 frame)
    \<and> drop_bit 20 d0 OR push_bit 12 (take_bit 20 d1) = t
    \<and> take_bit 5 (drop_bit 20 d1) = bus_state_code b \<and> drop_bit 25 d1 = step"
proof -
  have "step < 0x80" using assms(1) by (simp add: word_less_nat_alt word_le_nat_alt)
  then have st: "\<not> bit step k" if "7 \<le> k" for k
    using less_power_bits [of step 7 k] that by simp
  then have st': "bit step k \<Longrightarrow> k < 7" for k by (meson not_le)
  have "take_bit 4 d0 = drv_state_code s"
    by (rule bit_word_eqI) (auto simp: d0 and_masks bit_simps drv_state_code_bits)
  moreover have "take_bit 5 (drop_bit 4 d0) = host_state_code h"
    by (rule bit_word_eqI) (auto simp: d0 and_masks bit_simps drv_state_code_bits host_state_code_bits)
  moreover have "take_bit 11 (drop_bit 9 d0) = take_bit 11 (to_u32 frame)"
    by (rule bit_word_eqI) (auto simp: d0 and_masks bit_simps drv_state_code_bits host_state_code_bits)
  moreover have "drop_bit 20 d0 OR push_bit 12 (take_bit 20 d1) = t"
    by (rule bit_word_eqI) (auto simp: d0 d1 and_masks bit_simps drv_state_code_bits host_state_code_bits bus_state_code_bits)
  moreover have "take_bit 5 (drop_bit 20 d1) = bus_state_code b" 
    by (rule bit_word_eqI) (auto simp: d0 d1 and_masks bit_simps drv_state_code_bits host_state_code_bits bus_state_code_bits)
  moreover have "drop_bit 25 d1 = step"
    by (rule bit_word_eqI) (auto simp: d0 d1 and_masks bit_simps drv_state_code_bits host_state_code_bits bus_state_code_bits
        dest: st')
  ultimately show ?thesis by blast
qed

lemma diags_fields_inv:
  assumes "ctx_inv {} c"
  shows "\<exists>d0 d1 d2. usbdpi_diags c = Inr [d0, d1, d2]
    \<and> take_bit 4 d0 = drv_state_code (c_state c)
    \<and> take_bit 5 (drop_bit 4 d0) = host_state_code (c_hostSt c)
    \<and> take_bit 11 (drop_bit 9 d0) = take_bit 11 (to_u32 (c_frame c))
    \<and> drop_bit 20 d0 OR push_bit 12 (take_bit 20 d1) = c_tick_bits c
    \<and> take_bit 5 (drop_bit 20 d1) = bus_state_code (c_bus_state c)
    \<and> drop_bit 25 d1 = c_step c
    \<and> take_bit 8 d2 = to_u32 (m_lastpid (the (c_mon c)))"
proof -
  obtain m where m: "c_mon c = Some m" "monitor_ok m" and step: "c_step c \<le> 0x7f"
    using inv_ctx_ok [OF assms] by (auto simp: ctx_ok_def)
  obtain d2 where d2: "usb_monitor_diags (Some m) = Inr d2" "take_bit 8 d2 = to_u32 (m_lastpid m)"
    using monitor_diags_total [OF m(2)] by blast
  show ?thesis
    using diags_fields [OF step refl refl, where t = "c_tick_bits c" and frame = "c_frame c"
        and h = "c_hostSt c" and s = "c_state c" and b = "c_bus_state c"] d2 m(1) step
    by (simp add: usbdpi_diags_def drv_state_code_le host_state_code_le bus_state_code_le)
qed

end
