(* ===== verification/Line_Coding.thy ===== *)
theory Line_Coding
  imports Crc
begin

text \<open>
  The coding of a packet on the pair D+/D-, as the USB specification defines it and
  independently of the code: bits are sent the lowest first, a zero is stuffed after six
  ones, a zero toggles the line and a one keeps it (NRZI), and the packet stands between
  the SYNC pattern and the end of packet.  The driver of the host and the bus monitor are
  compared with these functions.
\<close>

section \<open>Bit stuffing\<close>

text \<open>
  \<open>run_next k b\<close>: the length of the run of ones after the bit \<open>b\<close>, where \<open>k\<close> ones precede
  it; a stuffed zero is due when the run is six.
\<close>

definition run_next :: "nat \<Rightarrow> bool \<Rightarrow> nat" where
  "run_next k b = (if b then (if k = 6 then 1 else k + 1) else 0)"

fun run_after :: "nat \<Rightarrow> bool list \<Rightarrow> nat" where
  "run_after k [] = k"
| "run_after k (b # bs) = run_after (run_next k b) bs"

fun stuff :: "nat \<Rightarrow> bool list \<Rightarrow> bool list" where
  "stuff k [] = []"
| "stuff k (b # bs) = (if k = 6 then [False, b] else [b]) @ stuff (run_next k b) bs"

lemma run_after_append: "run_after k (xs @ ys) = run_after (run_after k xs) ys"
  by (induction xs arbitrary: k) simp_all

lemma stuff_append: "stuff k (xs @ ys) = stuff k xs @ stuff (run_after k xs) ys"
  by (induction xs arbitrary: k) simp_all

lemma run_next_le: "k \<le> 6 \<Longrightarrow> run_next k b \<le> 6"
  by (simp add: run_next_def)

lemma run_after_le: "k \<le> 6 \<Longrightarrow> run_after k bs \<le> 6"
  by (induction bs arbitrary: k) (simp_all add: run_next_le)

section \<open>NRZI\<close>

text \<open>The level is \<open>True\<close> for J.\<close>

fun nrzi :: "bool \<Rightarrow> bool list \<Rightarrow> bool list" where
  "nrzi p [] = []"
| "nrzi p (b # bs) = (p = b) # nrzi (p = b) bs"

fun level_after :: "bool \<Rightarrow> bool list \<Rightarrow> bool" where
  "level_after p [] = p"
| "level_after p (b # bs) = level_after (p = b) bs"

lemma nrzi_append: "nrzi p (xs @ ys) = nrzi p xs @ nrzi (level_after p xs) ys"
  by (induction xs arbitrary: p) simp_all

lemma level_after_append: "level_after p (xs @ ys) = level_after (level_after p xs) ys"
  by (induction xs arbitrary: p) simp_all

section \<open>Packets\<close>

definition lv :: "bool \<Rightarrow> bool \<times> bool" where
  "lv p = (p, \<not> p)"

abbreviation coded :: "nat \<Rightarrow> bool \<Rightarrow> bool list \<Rightarrow> (bool \<times> bool) list" where
  "coded k p bs \<equiv> map lv (nrzi p (stuff k bs))"

lemma coded_append:
  "coded k p (xs @ ys) = coded k p xs @ coded (run_after k xs) (level_after p (stuff k xs)) ys"
  by (simp add: stuff_append nrzi_append)

definition se0 :: "bool \<times> bool" where
  "se0 = (False, False)"

definition sync_bits :: "bool list" where
  "sync_bits = [False, False, False, False, False, False, False, True]"

text \<open>
  The bits between SYNC and end of packet.  The last bit of SYNC is a one and counts as the
  first of a run.  A run of six ones at the very end is followed by a stuffed zero too;
  \<open>tail\<close> tells whether the sender keeps to that.
\<close>

definition packet_bits :: "bool \<Rightarrow> u8 list \<Rightarrow> bool list" where
  "packet_bits tail ds =
     stuff 1 (bytes_bits ds) @ (if tail \<and> run_after 1 (bytes_bits ds) = 6 then [False] else [])"

definition packet_lines :: "bool \<Rightarrow> u8 list \<Rightarrow> (bool \<times> bool) list" where
  "packet_lines tail ds = map lv (nrzi True (sync_bits @ packet_bits tail ds)) @ [se0, se0, lv True]"

lemma bytes_bits_simps [simp]:
  "bytes_bits [] = []" "bytes_bits (d # ds) = bits_of 8 d @ bytes_bits ds"
  by (simp_all add: bytes_bits_def)

lemma packet_lines_split:
  "packet_lines tail ds = map lv (nrzi True sync_bits) @ coded 1 False (bytes_bits ds)
     @ (if tail \<and> run_after 1 (bytes_bits ds) = 6
        then [lv (\<not> level_after False (stuff 1 (bytes_bits ds)))] else []) @ [se0, se0, lv True]"
proof -
  have "level_after True sync_bits = False" by (simp add: sync_bits_def)
  then show ?thesis by (simp add: packet_lines_def packet_bits_def nrzi_append)
qed

lemma bits_of_8: "bits_of 8 (d :: u8) = [bit d 0, bit d 1, bit d 2, bit d 3, bit d 4, bit d 5, bit d 6, bit d 7]"
  by (simp add: bits_of_def upt_rec eval_nat_numeral)

text \<open>
  The first zero of a byte ends every run, so the runs before it do not matter as long as
  no stuffing happens up to it.
\<close>

lemma run_ones: "j + k < 6 \<Longrightarrow> stuff k (replicate j True @ False # bs) = replicate j True @ False # stuff 0 bs
    \<and> run_after k (replicate j True @ False # bs) = run_after 0 bs"
  by (induction j arbitrary: k) (simp_all add: run_next_def)

section \<open>Registers that count a run\<close>

text \<open>\<open>run_ok raw k\<close>: the last bits received, at most six, end in a run of exactly \<open>k\<close> ones.\<close>

definition run_ok :: "u32 \<Rightarrow> nat \<Rightarrow> bool" where
  "run_ok raw k \<longleftrightarrow> k \<le> 6 \<and> (\<forall>i < k. bit raw i) \<and> (k < 6 \<longrightarrow> \<not> bit raw k)"

definition shift_in :: "u32 \<Rightarrow> bool \<Rightarrow> u32" where
  "shift_in raw b = push_bit 1 raw OR (if b then 1 else 0)"

lemma bit_shift_in:
  "bit (shift_in raw b) 0 = b" "bit (shift_in raw b) (Suc n) \<longleftrightarrow> n < 31 \<and> bit raw n"
  unfolding shift_in_def bit_or_iff bit_push_bit_iff by (auto simp: bit_1_iff)

lemma run_ok_shift:
  "run_ok raw k \<Longrightarrow> k < 6 \<or> \<not> b \<Longrightarrow> run_ok (shift_in raw b) (if b then k + 1 else 0)"
  by (auto simp: run_ok_def bit_shift_in less_Suc_eq_0_disj)

lemma bit_0x7e: "bit (0x7e :: u32) n \<longleftrightarrow> (\<exists>i < 6. n = Suc i)"
proof -
  have e: "(0x7e :: u32) = push_bit 1 (mask 6)" by (simp add: mask_eq_exp_minus_1)
  show ?thesis unfolding e bit_push_bit_iff bit_mask_iff by (cases n) auto
qed

lemma run_ok_six:
  assumes "run_ok raw k"
  shows "shift_in raw b AND 0x7e = 0x7e \<longleftrightarrow> k = 6"
proof -
  have "shift_in raw b AND 0x7e = 0x7e \<longleftrightarrow> (\<forall>i < 6. bit (shift_in raw b) (Suc i))"
  proof (intro iffI allI impI)
    fix i :: nat assume eq: "shift_in raw b AND 0x7e = 0x7e" and "i < 6"
    then have "bit (shift_in raw b AND 0x7e) (Suc i)" unfolding eq bit_0x7e by blast
    then show "bit (shift_in raw b) (Suc i)" by (simp only: bit_and_iff)
  next
    assume "\<forall>i < 6. bit (shift_in raw b) (Suc i)"
    then show "shift_in raw b AND 0x7e = 0x7e"
      by (intro bit_word_eqI) (auto simp only: bit_and_iff bit_0x7e)
  qed
  also have "\<dots> \<longleftrightarrow> k = 6"
    using assms by (cases "k = 6") (auto simp: run_ok_def bit_shift_in intro!: exI [of _ k])
  finally show ?thesis .
qed

lemma run_ok_mask: "run_ok raw k \<Longrightarrow> raw AND 0x3f = 0x3f \<longleftrightarrow> k = 6"
proof -
  assume r: "run_ok raw k"
  have e: "(0x3f :: u32) = mask 6" by (simp add: mask_eq_exp_minus_1)
  have "raw AND 0x3f = 0x3f \<longleftrightarrow> (\<forall>i < 6. bit raw i)"
  proof (intro iffI allI impI)
    fix i :: nat assume eq: "raw AND 0x3f = 0x3f" and "i < 6"
    then have "bit (raw AND 0x3f) i" unfolding eq by (simp add: e bit_mask_iff)
    then show "bit raw i" by (simp only: bit_and_iff)
  next
    assume "\<forall>i < 6. bit raw i"
    then show "raw AND 0x3f = 0x3f"
      by (intro bit_word_eqI) (auto simp: e bit_and_iff bit_mask_iff)
  qed
  also have "\<dots> \<longleftrightarrow> k = 6"
    using r by (cases "k = 6") (auto simp: run_ok_def intro!: exI [of _ k])
  finally show ?thesis .
qed

end
