(* ===== verification/Mon_Decode.thy ===== *)
theory Mon_Decode
  imports Monitor_Client Line_Coding
begin

text \<open>
  The bus monitor reads what the coding of \<open>Line_Coding\<close> says: fed with the states of the
  pair of a packet, one per bit interval, it reports SYNC, the PID, every byte and the end
  of packet to its client, in this order, and is ready for the next packet.
\<close>

section \<open>Samples in sequence\<close>

text \<open>The samples of consecutive bit intervals, from the time \<open>t\<close> on.\<close>

fun mon_run :: "'c mon_callback \<Rightarrow> (u8 \<Rightarrow> 'c \<Rightarrow> 'c) \<Rightarrow> bool \<Rightarrow> bool \<Rightarrow> u32 \<Rightarrow> (bool \<times> bool) list \<Rightarrow> monitor \<Rightarrow> 'c
    \<Rightarrow> (monitor \<times> 'c) res" where
  "mon_run cb sl log compact t [] m c = Inr (m, c)"
| "mon_run cb sl log compact t (l # ls) m c =
     bnd (mon_line cb sl m log compact t l c) (\<lambda>(m, c). mon_run cb sl log compact (t + 1) ls m c)"

fun deliver_bytes :: "'c mon_callback \<Rightarrow> u8 list \<Rightarrow> 'c \<Rightarrow> 'c res" where
  "deliver_bytes cb [] c = Inr c"
| "deliver_bytes cb (d # ds) c = bnd (data_callback cb UsbMon_DataType_Byte d c) (deliver_bytes cb ds)"

text \<open>What the client of the monitor is told of a packet.\<close>

definition deliver :: "'c mon_callback \<Rightarrow> (u8 \<Rightarrow> 'c \<Rightarrow> 'c) \<Rightarrow> u8 \<Rightarrow> u8 list \<Rightarrow> 'c \<Rightarrow> 'c res" where
  "deliver cb sl pid ds c =
     bnd (data_callback cb UsbMon_DataType_Sync 0 c) (\<lambda>c.
     bnd (data_callback cb UsbMon_DataType_PID pid (sl pid c)) (\<lambda>c.
     bnd (deliver_bytes cb ds c) (\<lambda>c.
       data_callback cb UsbMon_DataType_EOP 0 c)))"

lemma mon_run_append:
  "mon_run cb sl log compact t (xs @ ys) m c =
     bnd (mon_run cb sl log compact t xs m c) (\<lambda>(m, c). mon_run cb sl log compact (t + of_nat (length xs)) ys m c)"
proof (induction xs arbitrary: t m c)
  case (Cons x xs)
  show ?case by (simp add: Cons.IH bnd_def algebra_simps split: sum.split)
qed simp

lemma mon_run_one [simp]: "mon_run cb sl log compact t [l] m c = mon_line cb sl m log compact t l c"
  by (cases "mon_line cb sl m log compact t l c") auto

section \<open>The shift registers\<close>

lemma take_bit_line:
  "2 \<le> n \<Longrightarrow> take_bit n (push_bit 2 x OR line_pair l :: u32) = push_bit 2 (take_bit (n - 2) x) OR line_pair l"
  by (rule bit_word_eqI) (auto simp: bit_simps line_pair_def)

lemma line_masks:
  "x AND 0xfff = take_bit 12 (x :: u32)" "x AND 0x3f = take_bit 6 (x :: u32)"
  "x AND 3 = take_bit 2 (x :: u32)" "drop_bit 2 (x AND 0xc) = take_bit 2 (drop_bit 2 (x :: u32))"
  by (simp_all add: take_bit_eq_mask mask_eq_exp_minus_1)

lemma line_pair_simps [simp]:
  "line_pair (lv True) = 2" "line_pair (lv False) = 1" "line_pair se0 = 0"
  by (simp_all add: line_pair_def lv_def se0_def)

text \<open>The state of the two registers between bits: the run of ones and the level of the line.\<close>

definition mon_at :: "monitor \<Rightarrow> nat \<Rightarrow> bool \<Rightarrow> bool" where
  "mon_at m k p \<longleftrightarrow> run_ok (m_rawbits m) k \<and> m_line m AND 3 = line_pair (lv p)"

definition mon_same :: "monitor \<Rightarrow> monitor \<Rightarrow> bool" where
  "mon_same m m' \<longleftrightarrow> m_state m' = m_state m \<and> m_byte m' = m_byte m \<and> m_bytes m' = m_bytes m
     \<and> m_lastpid m' = m_lastpid m"

lemma mon_same_refl [simp]: "mon_same m m"
  by (simp add: mon_same_def)

lemma mon_same_trans [trans]: "mon_same m m' \<Longrightarrow> mon_same m' m'' \<Longrightarrow> mon_same m m''"
  by (simp add: mon_same_def)

lemma line_new:
  "(push_bit 2 x OR line_pair l :: u32) AND 3 = line_pair l"
  "drop_bit 2 ((push_bit 2 x OR line_pair l :: u32) AND 0xc) = x AND 3"
proof -
  show "(push_bit 2 x OR line_pair l :: u32) AND 3 = line_pair l"
    using take_bit_line [of 2 x l] by (simp add: line_masks(3))
  have "take_bit 2 (drop_bit 2 (push_bit 2 x OR line_pair l :: u32)) = take_bit 2 x"
    by (rule bit_word_eqI) (auto simp: bit_simps line_pair_def)
  then show "drop_bit 2 ((push_bit 2 x OR line_pair l :: u32) AND 0xc) = x AND 3"
    by (simp only: line_masks)
qed

lemma line_eop:
  "(push_bit 2 x OR line_pair l :: u32) AND 0x3f = eop_pattern \<longleftrightarrow> l = lv True \<and> x AND 0xf = 0"
proof -
  let ?y = "take_bit 4 x"
  have e: "(push_bit 2 x OR line_pair l) AND 0x3f = push_bit 2 ?y OR line_pair l"
    using take_bit_line [of 6 x l] by (simp only: line_masks) simp
  have y: "?y = drop_bit 2 (push_bit 2 ?y OR line_pair l)"
    by (rule bit_word_eqI) (auto simp: bit_simps line_pair_def)
  have l: "line_pair l = (push_bit 2 ?y OR line_pair l) AND 3"
    by (simp only: line_new)
  have "push_bit 2 ?y OR line_pair l = 2 \<longleftrightarrow> ?y = 0 \<and> line_pair l = 2"
  proof
    assume eq: "push_bit 2 ?y OR line_pair l = 2"
    show "?y = 0 \<and> line_pair l = 2"
      by (rule conjI, subst y, unfold eq, simp, subst l, unfold eq, simp)
  qed simp
  moreover have "line_pair l = 2 \<longleftrightarrow> l = lv True"
    by (cases l) (auto simp: line_pair_def lv_def)
  moreover have "eop_pattern = 2" by (simp add: eop_pattern_def)
  moreover have "x AND 0xf = ?y" by (simp add: take_bit_eq_mask mask_eq_exp_minus_1)
  ultimately show ?thesis unfolding e by auto
qed

lemma mon_line_bit:
  assumes "m_state m \<noteq> MS_IDLE" "l \<noteq> lv True \<or> m_line m AND 0xf \<noteq> 0"
  shows "mon_line cb sl m log compact t l c =
    mon_bit cb sl (m\<lparr>m_line := push_bit 2 (m_line m) OR line_pair l\<rparr>) log t c"
  using assms by (auto simp: mon_line_def Let_def line_eop)

section \<open>Single bits\<close>

text \<open>A sample that shows the bit \<open>b\<close>: the line keeps its level for a one and changes it for a zero.\<close>

lemma line_bit:
  "(push_bit 2 x OR line_pair (lv q) :: u32) AND 3 = line_pair (lv q)"
  "x AND 3 = line_pair (lv p) \<Longrightarrow> drop_bit 2 ((push_bit 2 x OR line_pair (lv q) :: u32) AND 0xc) =
     (push_bit 2 x OR line_pair (lv q)) AND 3 \<longleftrightarrow> p = q"
  unfolding line_new by (cases p; cases q; simp)+

lemma level_nonzero: "x AND 3 = line_pair (lv p) \<Longrightarrow> (x :: u32) AND 0xf \<noteq> 0"
proof
  assume x: "x AND 3 = line_pair (lv p)" "x AND 0xf = 0"
  have "x AND 3 = (x AND 0xf) AND 3" by (simp add: and.assoc)
  with x show False by (cases p) simp_all
qed

lemma mon_bit_stuffed:
  assumes "(drop_bit 2 (m_line m AND 0xc) = m_line m AND 3) = False" "run_ok (m_rawbits m) 6"
  shows "mon_bit cb sl m log t c = Inr (m\<lparr>m_rawbits := shift_in (m_rawbits m) False\<rparr>, c)"
  using run_ok_six [OF assms(2), of False]
  unfolding mon_bit_def Let_def assms(1) shift_in_def [symmetric] by simp

lemma mon_bit_data:
  assumes "(drop_bit 2 (m_line m AND 0xc) = m_line m AND 3) = b" "run_ok (m_rawbits m) k" "k \<noteq> 6"
  shows "mon_bit cb sl m log t c =
    (let m' = m\<lparr>m_rawbits := shift_in (m_rawbits m) b,
        m_bits := drop_bit 1 (m_bits m) OR (if b then 0x80 else 0), m_needbits := m_needbits m - 1\<rparr>
     in if m_needbits m = 1 then mon_complete cb sl m' log t c else Inr (m', c))"
  using run_ok_six [OF assms(2), of b] assms(3)
  unfolding mon_bit_def Let_def assms(1) shift_in_def [symmetric] by simp

lemma mon_line_stuffed:
  assumes "m_state m \<noteq> MS_IDLE" "mon_at m 6 p"
  shows "\<exists>m'. (\<forall>c. mon_line cb sl m log compact t (lv (\<not> p)) c = Inr (m', c)) \<and> mon_same m m'
    \<and> m_bits m' = m_bits m \<and> m_needbits m' = m_needbits m \<and> mon_at m' 0 (\<not> p)"
proof -
  let ?L = "push_bit 2 (m_line m) OR line_pair (lv (\<not> p))"
  let ?m = "m\<lparr>m_line := ?L, m_rawbits := shift_in (m_rawbits m) False\<rparr>"
  have l: "m_line m AND 3 = line_pair (lv p)" and r: "run_ok (m_rawbits m) 6"
    using assms(2) by (simp_all add: mon_at_def)
  have "mon_line cb sl m log compact t (lv (\<not> p)) c = Inr (?m, c)" for c
    using line_bit(2) [OF l, of "\<not> p"] r
    unfolding mon_line_bit [OF assms(1) disjI2 [OF level_nonzero [OF l]]]
    by (subst mon_bit_stuffed) simp_all
  moreover have "mon_at ?m 0 (\<not> p)"
    using run_ok_shift [OF r, of False] by (simp add: mon_at_def line_bit(1))
  ultimately show ?thesis
    by (intro exI [of _ ?m]) (simp add: mon_same_def)
qed

lemma mon_line_data:
  assumes "m_state m \<noteq> MS_IDLE" "mon_at m k p" "k \<noteq> 6"
  shows "\<exists>m'. (\<forall>c. mon_line cb sl m log compact t (lv (p = b)) c =
      (if m_needbits m = 1 then mon_complete cb sl m' log t c else Inr (m', c))) \<and> mon_same m m'
    \<and> m_bits m' = drop_bit 1 (m_bits m) OR (if b then 0x80 else 0) \<and> m_needbits m' = m_needbits m - 1
    \<and> mon_at m' (run_next k b) (p = b)"
proof -
  let ?L = "push_bit 2 (m_line m) OR line_pair (lv (p = b))"
  let ?m = "m\<lparr>m_line := ?L, m_rawbits := shift_in (m_rawbits m) b,
    m_bits := drop_bit 1 (m_bits m) OR (if b then 0x80 else 0), m_needbits := m_needbits m - 1\<rparr>"
  have l: "m_line m AND 3 = line_pair (lv p)" and r: "run_ok (m_rawbits m) k"
    using assms(2) by (simp_all add: mon_at_def)
  have "mon_line cb sl m log compact t (lv (p = b)) c =
      (if m_needbits m = 1 then mon_complete cb sl ?m log t c else Inr (?m, c))" for c
    using line_bit(2) [OF l, of "p = b"] assms(3) r
    unfolding mon_line_bit [OF assms(1) disjI2 [OF level_nonzero [OF l]]]
    by (subst mon_bit_data [where b = b and k = k]) (auto simp: Let_def)
  moreover have "k < 6" using r assms(3) by (simp add: run_ok_def)
  then have "mon_at ?m (run_next k b) (p = b)"
    using run_ok_shift [OF r, of b] assms(3) by (cases b) (simp_all add: mon_at_def line_bit(1) run_next_def)
  ultimately show ?thesis
    by (intro exI [of _ ?m]) (simp add: mon_same_def)
qed

section \<open>Bits with their stuffing\<close>

lemma mon_run_bit:
  assumes "m_state m \<noteq> MS_IDLE" "mon_at m k p"
  shows "\<exists>m' t'. (\<forall>c. mon_run cb sl log compact t (coded k p [b]) m c =
      (if m_needbits m = 1 then mon_complete cb sl m' log t' c else Inr (m', c))) \<and> mon_same m m'
    \<and> m_bits m' = drop_bit 1 (m_bits m) OR (if b then 0x80 else 0) \<and> m_needbits m' = m_needbits m - 1
    \<and> mon_at m' (run_next k b) (level_after p (stuff k [b]))"
proof (cases "k = 6")
  case False
  obtain m1 where "\<And>c. mon_line cb sl m log compact t (lv (p = b)) c =
      (if m_needbits m = 1 then mon_complete cb sl m1 log t c else Inr (m1, c))" "mon_same m m1"
    "m_bits m1 = drop_bit 1 (m_bits m) OR (if b then 0x80 else 0)" "m_needbits m1 = m_needbits m - 1"
    "mon_at m1 (run_next k b) (p = b)"
    using mon_line_data [OF assms False, of cb sl log compact t b] by auto
  then show ?thesis
    using False by (intro exI [of _ m1] exI [of _ t]) (simp del: mon_run.simps)
next
  case True
  obtain m1 where 1: "\<And>c. mon_line cb sl m log compact t (lv (\<not> p)) c = Inr (m1, c)" "mon_same m m1"
    "m_bits m1 = m_bits m" "m_needbits m1 = m_needbits m" "mon_at m1 0 (\<not> p)"
    using mon_line_stuffed [of m p cb sl log compact t] assms True by blast
  have "m_state m1 \<noteq> MS_IDLE" using assms(1) 1(2) by (simp add: mon_same_def)
  from mon_line_data [OF this 1(5), of cb sl log compact "t + 1" b] obtain m2 where
    2: "\<And>c. mon_line cb sl m1 log compact (t + 1) (lv ((\<not> p) = b)) c =
      (if m_needbits m1 = 1 then mon_complete cb sl m2 log (t + 1) c else Inr (m2, c))" "mon_same m1 m2"
    "m_bits m2 = drop_bit 1 (m_bits m1) OR (if b then 0x80 else 0)" "m_needbits m2 = m_needbits m1 - 1"
    "mon_at m2 (run_next 0 b) ((\<not> p) = b)" by auto
  have "mon_run cb sl log compact t (coded k p [b]) m c =
      (if m_needbits m = 1 then mon_complete cb sl m2 log (t + 1) c else Inr (m2, c))" for c
    using True 1(1,4) 2(1) mon_run.simps(2) [of cb sl log compact t _ "[_]"] by (simp del: mon_run.simps)
  moreover have "run_next 6 b = run_next 0 b" by (simp add: run_next_def)
  ultimately show ?thesis
    using True 1 2 mon_same_trans [OF 1(2) 2(2)] by (intro exI [of _ m2] exI [of _ "t + 1"]) simp
qed

definition shift_bits :: "u32 \<Rightarrow> bool list \<Rightarrow> u32" where
  "shift_bits = foldl (\<lambda>x b. drop_bit 1 x OR (if b then 0x80 else 0))"

lemma mon_run_bits:
  assumes "m_state m \<noteq> MS_IDLE" "mon_at m k p" "length bs < unat (m_needbits m)"
  shows "\<exists>m'. (\<forall>c. mon_run cb sl log compact t (coded k p bs) m c = Inr (m', c)) \<and> mon_same m m'
    \<and> m_bits m' = shift_bits (m_bits m) bs \<and> unat (m_needbits m') = unat (m_needbits m) - length bs
    \<and> mon_at m' (run_after k bs) (level_after p (stuff k bs))"
  using assms
proof (induction bs arbitrary: m k p t)
  case Nil
  then show ?case by (intro exI [of _ m]) (simp add: shift_bits_def)
next
  case (Cons b bs)
  have nz: "m_needbits m \<noteq> 0" using Cons.prems(3) by auto
  have n: "m_needbits m \<noteq> 1" "unat (m_needbits m - 1) = unat (m_needbits m) - 1"
    using Cons.prems(3) unat_minus_one [OF nz] by auto
  obtain m1 where 1: "\<And>c. mon_run cb sl log compact t (coded k p [b]) m c = Inr (m1, c)" "mon_same m m1"
    "m_bits m1 = drop_bit 1 (m_bits m) OR (if b then 0x80 else 0)" "m_needbits m1 = m_needbits m - 1"
    "mon_at m1 (run_next k b) (level_after p (stuff k [b]))"
    using mon_run_bit [OF Cons.prems(1,2), of cb sl log compact t b] n(1) by auto
  have st: "m_state m1 \<noteq> MS_IDLE" "length bs < unat (m_needbits m1)"
    using Cons.prems(1,3) 1(2,4) n by (simp_all add: mon_same_def)
  let ?t = "t + of_nat (length (coded k p [b]))"
  obtain m2 where 2: "\<And>c. mon_run cb sl log compact ?t (coded (run_next k b) (level_after p (stuff k [b])) bs) m1 c
      = Inr (m2, c)" "mon_same m1 m2" "m_bits m2 = shift_bits (m_bits m1) bs"
    "unat (m_needbits m2) = unat (m_needbits m1) - length bs"
    "mon_at m2 (run_after (run_next k b) bs) (level_after (level_after p (stuff k [b])) (stuff (run_next k b) bs))"
    using Cons.IH [OF st(1) 1(5) st(2), of ?t] by blast
  have e: "coded k p (b # bs) = coded k p [b] @ coded (run_next k b) (level_after p (stuff k [b])) bs"
    using coded_append [of p k "[b]" bs] by simp
  have "stuff k (b # bs) = stuff k [b] @ stuff (run_next k b) bs" by simp
  then have "level_after p (stuff k (b # bs))
      = level_after (level_after p (stuff k [b])) (stuff (run_next k b) bs)"
    by (simp only: level_after_append)
  moreover have "mon_run cb sl log compact t (coded k p (b # bs)) m c = Inr (m2, c)" for c
    unfolding e mon_run_append 1(1) using 2(1) by simp
  ultimately show ?case
    using 1(3,4) 2 n(2) mon_same_trans [OF 1(2) 2(2)]
    by (intro exI [of _ m2]) (simp add: shift_bits_def del: stuff.simps)
qed

text \<open>The register holds the last eight bits, the newest at the top.\<close>

lemma shift_bits_step:
  assumes "low_bits 8 x"
  shows "low_bits 8 (drop_bit 1 x OR (if b then 0x80 else 0))"
    "bits_of 8 (drop_bit 1 x OR (if b then 0x80 else 0)) = tl (bits_of 8 x) @ [b]"
proof -
  have e: "(0x80 :: u32) = push_bit 7 1" by simp
  have e7: "bit (0x80 :: u32) n \<longleftrightarrow> n = 7" for n
    unfolding e bit_push_bit_iff by (auto simp: bit_1_iff)
  have bit: "bit (drop_bit 1 x OR (if b then 0x80 else 0)) n \<longleftrightarrow> bit x (Suc n) \<or> n = 7 \<and> b" for n
    using e7 [of n] unfolding bit_or_iff bit_drop_bit_eq by (cases b) auto
  show "low_bits 8 (drop_bit 1 x OR (if b then 0x80 else 0))"
    using assms unfolding low_bits_def bit by auto
  show "bits_of 8 (drop_bit 1 x OR (if b then 0x80 else 0)) = tl (bits_of 8 x) @ [b]"
  proof (rule nth_equalityI)
    fix i assume "i < length (bits_of 8 (drop_bit 1 x OR (if b then 0x80 else 0)))"
    then have "i < 8" by simp
    then show "bits_of 8 (drop_bit 1 x OR (if b then 0x80 else 0)) ! i = (tl (bits_of 8 x) @ [b]) ! i"
      using assms unfolding nth_bits_of [OF \<open>i < 8\<close>] bit by (auto simp: nth_append nth_tl low_bits_def less_Suc_eq)
  qed simp
qed

lemma shift_bits_window:
  "low_bits 8 x \<Longrightarrow> length bs \<le> 8 \<Longrightarrow>
   low_bits 8 (shift_bits x bs) \<and> bits_of 8 (shift_bits x bs) = drop (length bs) (bits_of 8 x @ bs)"
proof (induction bs arbitrary: x)
  case (Cons b bs)
  have "bits_of 8 x \<noteq> []" using length_bits_of [of 8 x] by fastforce
  then have "drop (length bs) (tl (bits_of 8 x) @ [b] @ bs) = drop (Suc (length bs)) (bits_of 8 x @ b # bs)"
    by (cases "bits_of 8 x") simp_all
  then show ?case
    using Cons.IH [OF shift_bits_step(1) [OF Cons.prems(1)], of b] Cons.prems shift_bits_step(2) [OF Cons.prems(1), of b]
    by (simp add: shift_bits_def)
qed (simp add: shift_bits_def)

lemma shift_bits_byte: "low_bits 8 x \<Longrightarrow> shift_bits x (bits_of 8 d) = to_u32 (d :: u8)"
proof -
  assume x: "low_bits 8 x"
  have "low_bits 8 (to_u32 d)" "bits_of 8 (to_u32 d) = bits_of 8 d"
    by (auto simp: low_bits_def bits_of_def bit_simps dest: bit_imp_le_length)
  then show ?thesis
    using shift_bits_window [OF x, of "bits_of 8 d"]
    by (intro low_bits_eqI [of 8]) simp_all
qed

section \<open>Bytes\<close>

lemma mon_run_byte:
  assumes "m_state m \<noteq> MS_IDLE" "mon_at m k p" "m_needbits m = 8" "low_bits 8 (m_bits m)"
  shows "\<exists>m' t'. (\<forall>c. mon_run cb sl log compact t (coded k p (bits_of 8 d)) m c = mon_complete cb sl m' log t' c)
    \<and> mon_same m m' \<and> m_bits m' = to_u32 (d :: u8)
    \<and> mon_at m' (run_after k (bits_of 8 d)) (level_after p (stuff k (bits_of 8 d)))"
proof -
  let ?i = "bits_of 7 d" and ?l = "bit d 7"
  let ?k = "run_after k ?i" and ?p = "level_after p (stuff k ?i)"
  have d: "bits_of 8 d = ?i @ [?l]"
    by (simp add: bits_of_def upt_rec eval_nat_numeral)
  obtain m1 where 1: "\<And>c. mon_run cb sl log compact t (coded k p ?i) m c = Inr (m1, c)" "mon_same m m1"
    "m_bits m1 = shift_bits (m_bits m) ?i" "unat (m_needbits m1) = 1" "mon_at m1 ?k ?p"
    using mon_run_bits [OF assms(1,2), of ?i cb sl log compact t] assms(3) by auto
  have "m_state m1 \<noteq> MS_IDLE" "m_needbits m1 = 1"
    using assms(1) 1(2,4) by (simp_all add: mon_same_def word_unat_eq_iff)
  then obtain m2 t2 where 2: "\<And>c. mon_run cb sl log compact (t + of_nat (length (coded k p ?i))) (coded ?k ?p [?l]) m1 c
      = mon_complete cb sl m2 log t2 c" "mon_same m1 m2"
    "m_bits m2 = drop_bit 1 (m_bits m1) OR (if ?l then 0x80 else 0)"
    "mon_at m2 (run_next ?k ?l) (level_after ?p (stuff ?k [?l]))"
    using mon_run_bit [OF _ 1(5), of cb sl log compact "t + of_nat (length (coded k p ?i))" ?l] by auto
  have "m_bits m2 = shift_bits (m_bits m) (bits_of 8 d)"
    unfolding d using 1(3) 2(3) by (simp add: shift_bits_def)
  then have "m_bits m2 = to_u32 d" by (simp add: shift_bits_byte [OF assms(4)])
  moreover have "mon_run cb sl log compact t (coded k p (bits_of 8 d)) m c = mon_complete cb sl m2 log t2 c" for c
    unfolding d coded_append mon_run_append 1(1) using 2(1) by simp
  ultimately show ?thesis
    using 2(4) mon_same_trans [OF 1(2) 2(2)] unfolding d
    by (intro exI [of _ m2] exI [of _ t2]) (simp add: run_after_append stuff_append level_after_append)
qed

text \<open>The state between the bytes of a packet.\<close>

definition mon_reading :: "monitor \<Rightarrow> nat \<Rightarrow> bool \<Rightarrow> bool" where
  "mon_reading m k p \<longleftrightarrow> m_state m = MS_GET_BYTES \<and> mon_at m k p \<and> m_needbits m = 8 \<and> low_bits 8 (m_bits m)
     \<and> monitor_ok m"

lemma low_bits_byte: "low_bits 8 (to_u32 (d :: u8))"
  by (auto simp: low_bits_def bit_simps dest: bit_imp_le_length)

lemma mon_run_body_byte:
  assumes "mon_reading m k p"
  shows "\<exists>m'. (\<forall>c. mon_run cb sl log compact t (coded k p (bits_of 8 d)) m c =
      bnd (data_callback cb UsbMon_DataType_Byte d c) (\<lambda>c. Inr (m', c)))
    \<and> mon_reading m' (run_after k (bits_of 8 d)) (level_after p (stuff k (bits_of 8 d)))
    \<and> m_byte m' = m_byte m + 1 \<and> m_bytes m' = (m_bytes m)[unat (m_byte m) := d] \<and> m_lastpid m' = m_lastpid m"
proof -
  have m: "m_state m = MS_GET_BYTES" "mon_at m k p" "m_needbits m = 8" "low_bits 8 (m_bits m)" "monitor_ok m"
    using assms by (simp_all add: mon_reading_def)
  obtain m1 t1 where 1: "\<And>c. mon_run cb sl log compact t (coded k p (bits_of 8 d)) m c = mon_complete cb sl m1 log t1 c"
    "mon_same m m1" "m_bits m1 = to_u32 d"
    "mon_at m1 (run_after k (bits_of 8 d)) (level_after p (stuff k (bits_of 8 d)))"
    using mon_run_byte [OF _ m(2-4), of cb sl log compact t d] m(1) by auto
  let ?m = "m1\<lparr>m_bytes := (m_bytes m)[unat (m_byte m) := d], m_needbits := 8, m_byte := m_byte m + 1\<rparr>"
  have b: "unat (m_byte m) < 256" by simp
  then have "unat (m_byte m) < 1026" "unat (m_byte m) < 1024" by linarith+
  moreover have "length (m_bytes m) = 1026" using m(5) by (simp add: monitor_ok_def)
  moreover have "to_u8 (to_u32 d) = d" by (rule bit_word_eqI) (simp add: bit_simps)
  ultimately have "mon_complete cb sl m1 log t1 c = bnd (data_callback cb UsbMon_DataType_Byte d c) (\<lambda>c. Inr (?m, c))" for c
    using 1(2,3) m(1) by (simp add: mon_complete_def mon_same_def)
  then show ?thesis
    using 1 m low_bits_byte [of d]
    by (intro exI [of _ ?m]) (simp add: mon_reading_def mon_same_def mon_at_def monitor_ok_def)
qed

lemma mon_run_pid:
  assumes "m_state m = MS_GET_PID" "mon_at m k p" "m_needbits m = 8" "low_bits 8 (m_bits m)" "monitor_ok m"
    and "\<not> pid_bad pid"
  shows "\<exists>m'. (\<forall>c. mon_run cb sl log compact t (coded k p (bits_of 8 pid)) m c =
      bnd (data_callback cb UsbMon_DataType_PID pid (sl pid c)) (\<lambda>c. Inr (m', c)))
    \<and> mon_reading m' (run_after k (bits_of 8 pid)) (level_after p (stuff k (bits_of 8 pid)))
    \<and> m_byte m' = 0 \<and> m_bytes m' = m_bytes m \<and> m_lastpid m' = pid"
proof -
  obtain m1 t1 where 1: "\<And>c. mon_run cb sl log compact t (coded k p (bits_of 8 pid)) m c = mon_complete cb sl m1 log t1 c"
    "mon_same m m1" "m_bits m1 = to_u32 pid"
    "mon_at m1 (run_after k (bits_of 8 pid)) (level_after p (stuff k (bits_of 8 pid)))"
    using mon_run_byte [OF _ assms(2-4), of cb sl log compact t pid] assms(1) by auto
  let ?m = "(if log then mon_printf (m1\<lparr>m_lastpid := pid\<rparr>) (''mon: '' @ dec8 t1 @ '': ('' @ drv_char (m_driver m1)
      @ '') PID '' @ decode_pid pid @ '' (0x'' @ hex pid @ '')'' @ nl) else m1\<lparr>m_lastpid := pid\<rparr>)
      \<lparr>m_state := MS_GET_BYTES, m_needbits := 8, m_byte := 0\<rparr>"
  have "to_u8 (to_u32 pid) = pid" by (rule bit_word_eqI) (simp add: bit_simps)
  then have "mon_complete cb sl m1 log t1 c = bnd (data_callback cb UsbMon_DataType_PID pid (sl pid c)) (\<lambda>c. Inr (?m, c))" for c
    using 1(2,3) assms(1,6) by (simp add: mon_complete_def mon_same_def Let_def)
  then show ?thesis
    using 1 assms(5) low_bits_byte [of pid]
    by (intro exI [of _ ?m]) (simp add: mon_reading_def mon_same_def mon_at_def monitor_ok_def)
qed

lemma mon_run_bytes:
  assumes "mon_reading m k p" "unat (m_byte m) + length ds < 256"
  shows "\<exists>m'. (\<forall>c. mon_run cb sl log compact t (coded k p (bytes_bits ds)) m c =
      bnd (deliver_bytes cb ds c) (\<lambda>c. Inr (m', c)))
    \<and> mon_reading m' (run_after k (bytes_bits ds)) (level_after p (stuff k (bytes_bits ds)))
    \<and> unat (m_byte m') = unat (m_byte m) + length ds \<and> m_lastpid m' = m_lastpid m
    \<and> m_bytes m' = take (unat (m_byte m)) (m_bytes m) @ ds @ drop (unat (m_byte m) + length ds) (m_bytes m)"
  using assms
proof (induction ds arbitrary: m k p t)
  case Nil
  then show ?case by (intro exI [of _ m]) simp
next
  case (Cons d ds)
  let ?b = "unat (m_byte m)" and ?k = "run_after k (bits_of 8 d)" and ?p = "level_after p (stuff k (bits_of 8 d))"
  let ?t = "t + of_nat (length (coded k p (bits_of 8 d)))"
  obtain m1 where 1: "\<And>c. mon_run cb sl log compact t (coded k p (bits_of 8 d)) m c =
      bnd (data_callback cb UsbMon_DataType_Byte d c) (\<lambda>c. Inr (m1, c))" "mon_reading m1 ?k ?p"
    "m_byte m1 = m_byte m + 1" "m_bytes m1 = (m_bytes m)[?b := d]" "m_lastpid m1 = m_lastpid m"
    using mon_run_body_byte [OF Cons.prems(1), of cb sl log compact t d] by blast
  have b: "unat (m_byte m1) = ?b + 1"
    using Cons.prems(2) unfolding 1(3) by (subst unat_word_ariths) simp
  have len: "?b < length (m_bytes m)"
    using Cons.prems by (simp add: mon_reading_def monitor_ok_def)
  obtain m2 where 2: "\<And>c. mon_run cb sl log compact ?t (coded ?k ?p (bytes_bits ds)) m1 c =
      bnd (deliver_bytes cb ds c) (\<lambda>c. Inr (m2, c))"
    "mon_reading m2 (run_after ?k (bytes_bits ds)) (level_after ?p (stuff ?k (bytes_bits ds)))"
    "unat (m_byte m2) = unat (m_byte m1) + length ds" "m_lastpid m2 = m_lastpid m1"
    "m_bytes m2 = take (unat (m_byte m1)) (m_bytes m1) @ ds @ drop (unat (m_byte m1) + length ds) (m_bytes m1)"
    using Cons.IH [OF 1(2), of ?t] Cons.prems(2) b by auto
  have "mon_run cb sl log compact t (coded k p (bytes_bits (d # ds))) m c =
      bnd (deliver_bytes cb (d # ds) c) (\<lambda>c. Inr (m2, c))" for c
    unfolding bytes_bits_simps coded_append mon_run_append 1(1) using 2(1)
    by (simp add: bnd_def split: sum.split)
  moreover have "take (?b + 1) ((m_bytes m)[?b := d]) = take ?b (m_bytes m) @ [d]"
    using len by (simp add: take_Suc_conv_app_nth)
  ultimately show ?case
    using 1(4,5) 2(2-5) b
    by (intro exI [of _ m2]) (simp add: run_after_append stuff_append level_after_append)
qed

section \<open>SYNC\<close>

text \<open>A monitor between packets.\<close>

definition mon_ready :: "monitor \<Rightarrow> bool" where
  "mon_ready m \<longleftrightarrow> m_state m = MS_IDLE \<and> m_line m AND 3 \<noteq> line_pair (lv False)
     \<and> (run_ok (m_rawbits m) 0 \<or> run_ok (m_rawbits m) 1) \<and> low_bits 8 (m_bits m) \<and> monitor_ok m"

lemma sync_needs_KK:
  assumes "(push_bit 2 x OR line_pair l :: u32) AND 0xfff = sync_pattern"
  shows "l = lv False" "x AND 3 = 1"
proof -
  have s: "sync_pattern = 0x665" by (simp add: sync_pattern_def)
  let ?L = "push_bit 2 x OR line_pair l :: u32"
  have "line_pair l = (?L AND 0xfff) AND 3" unfolding and.assoc using line_new(1) [of x l] by simp
  then have "line_pair l = 1" unfolding assms s by simp
  then show "l = lv False" by (cases l) (auto simp: line_pair_def lv_def split: if_splits)
  have "x AND 3 = drop_bit 2 ((?L AND 0xfff) AND 0xc)" unfolding and.assoc using line_new(2) [of x l] by simp
  then show "x AND 3 = 1" unfolding assms s by simp
qed

lemma lv_eq [simp]: "lv p = lv q \<longleftrightarrow> p = q"
  by (auto simp: lv_def)

definition shift_line :: "u32 \<Rightarrow> bool \<times> bool \<Rightarrow> u32" where
  "shift_line x l = push_bit 2 x OR line_pair l"

lemma shift_line_low [simp]: "shift_line x l AND 3 = line_pair l"
  by (simp only: shift_line_def line_new)

lemma take_bit_shift_line: "2 \<le> n \<Longrightarrow> take_bit n (shift_line x l) = shift_line (take_bit (n - 2) x) l"
  by (simp only: shift_line_def take_bit_line)

lemma mon_line_idle:
  assumes "m_state m = MS_IDLE" "l \<noteq> lv False \<or> m_line m AND 3 \<noteq> 1"
  shows "mon_line cb sl m log compact t l c = Inr (m\<lparr>m_line := shift_line (m_line m) l\<rparr>, c)"
  using assms sync_needs_KK [of "m_line m" l] by (auto simp: mon_line_def Let_def shift_line_def)

text \<open>The samples K J K J K K complete SYNC.\<close>

lemma sync_seen:
  "foldl shift_line x (map lv [False, True, False, True, False, False]) AND 0xfff = sync_pattern"
proof -
  have "take_bit 12 (foldl shift_line x (map lv [False, True, False, True, False, False]))
      = foldl shift_line 0 (map lv [False, True, False, True, False, False])"
    by (simp add: take_bit_shift_line)
  also have "\<dots> = sync_pattern"
    by (simp add: shift_line_def sync_pattern_def)
  finally show ?thesis by (simp only: line_masks(1))
qed

lemma mon_run_sync:
  assumes "mon_ready m"
  shows "\<exists>m'. (\<forall>c. mon_run cb sl log compact t (map lv (nrzi True sync_bits)) m c =
      bnd (data_callback cb UsbMon_DataType_Sync 0 c) (\<lambda>c. Inr (m', c)))
    \<and> m_state m' = MS_GET_PID \<and> m_line m' AND 3 = line_pair (lv False) \<and> m_needbits m' = 8
    \<and> m_rawbits m' = m_rawbits m \<and> m_bits m' = m_bits m \<and> m_bytes m' = m_bytes m"
proof -
  define L where "L = foldl shift_line (m_line m) (map lv [False, True, False, True, False, True, False])"
  let ?T = "t + 7"
  let ?m = "m\<lparr>m_line := shift_line L (lv False)\<rparr>"
  have st: "m_state m = MS_IDLE" and k: "m_line m AND 3 \<noteq> 1"
    using assms by (simp_all add: mon_ready_def)
  have "mon_run cb sl log compact t (map lv [False, True, False, True, False, True, False, False]) m c
      = mon_line cb sl (m\<lparr>m_line := L\<rparr>) log compact ?T (lv False) c" for c
  proof -
    have "mon_run cb sl log compact t (map lv [False, True, False, True, False, True, False]) m c
        = Inr (m\<lparr>m_line := L\<rparr>, c)"
      using st k by (simp add: mon_line_idle L_def)
    then show ?thesis
      using mon_run_append [of cb sl log compact t "map lv [False, True, False, True, False, True, False]" "[lv False]" m c]
      by (simp del: mon_run.simps)
  qed
  moreover have sync: "shift_line L (lv False) AND 0xfff = sync_pattern"
    using sync_seen [of "shift_line (shift_line (m_line m) (lv False)) (lv True)"] by (simp add: L_def)
  define m' where "m' = (if log then mon_printf ?m (''mon: '' @ dec8 ?T @ '': (''
      @ drv_char (m_driver m) @ '') SOP'' @ nl) else ?m)\<lparr>m_sopAt := ?T, m_state := MS_GET_PID, m_needbits := 8\<rparr>"
  have "mon_line cb sl (m\<lparr>m_line := L\<rparr>) log compact ?T (lv False) c
      = bnd (data_callback cb UsbMon_DataType_Sync 0 c) (\<lambda>c. Inr (m', c))" for c
    using st sync unfolding mon_line_def shift_line_def [symmetric] by (simp add: m'_def Let_def)
  moreover have "map lv (nrzi True sync_bits) = map lv [False, True, False, True, False, True, False, False]"
    by (simp add: sync_bits_def)
  ultimately show ?thesis
    by (intro exI [of _ m']) (simp add: m'_def)
qed

section \<open>End of packet\<close>

lemma mon_log_packet_file:
  assumes "monitor_ok m" "compact \<or> 2 \<le> m_byte m" "m_byte m > 0"
  shows "\<exists>f. mon_log_packet m compact t = Inr (m\<lparr>m_file := f\<rparr>)"
proof -
  have "wp no_error (mon_log_packet m compact t) monitor_ok"
    using assms by (intro mon_log_packet_ok) simp_all
  then obtain m' where m': "mon_log_packet m compact t = Inr m'"
    unfolding wp_no_error_iff by blast
  then show ?thesis
    by (auto simp: mon_log_packet_def Let_def mon_printf_def bnd_eq_Inr_iff split: if_splits)
qed

lemma mon_eop_file:
  assumes "monitor_ok m" "compact \<or> \<not> log \<or> m_byte m \<noteq> 1"
  shows "\<exists>f. \<forall>c. mon_eop cb m log compact t c =
    bnd (data_callback cb UsbMon_DataType_EOP 0 c) (\<lambda>c. Inr (m\<lparr>m_file := f, m_state := MS_IDLE\<rparr>, c))"
proof -
  let ?pre = "if (log \<or> compact) \<and> m_state m = MS_GET_BYTES \<and> m_byte m > 0
      then mon_log_packet m compact t
      else if compact
      then Inr (mon_printf m (''mon: '' @ dec8 (m_sopAt m) @ '' -- '' @ dec8 t @ '': (''
                  @ drv_char (m_driver m) @ '') SOP, PID '' @ decode_pid (m_lastpid m) @ '' EOP'' @ nl))
      else Inr m"
  have "2 \<le> m_byte m" if "m_byte m > 0" "m_byte m \<noteq> 1"
  proof -
    have "unat (m_byte m) \<noteq> 1" using that(2) by (metis unat_1 unsigned_word_eqI)
    then show ?thesis using that(1) by (simp add: word_le_nat_alt word_less_nat_alt)
  qed
  then have "\<exists>f. ?pre = Inr (m\<lparr>m_file := f\<rparr>)"
    using assms mon_log_packet_file [OF assms(1), of compact t]
    by (auto simp: mon_printf_def intro: exI [of _ "m_file m"])
  then obtain f where f: "?pre = Inr (m\<lparr>m_file := f\<rparr>)" ..
  show ?thesis
    by (rule exI [of _ "if log then f @ [''mon: '' @ dec8 t @ '': ('' @ drv_char (m_driver m) @ '') EOP'' @ nl] else f"])
      (simp only: mon_eop_def f bnd_Inr, simp add: mon_printf_def Let_def)
qed

text \<open>
  The two samples of SE0 are shifted in like bits, a zero and a one; they do not complete a
  byte, and if a run of six ones precedes them the first is taken for a stuffed zero.
\<close>

lemma mon_line_se0_first:
  assumes "mon_reading m k p"
  shows "\<exists>m'. (\<forall>c. mon_line cb sl m log compact t se0 c = Inr (m', c)) \<and> mon_same m m' \<and> monitor_ok m'
    \<and> m_line m' = shift_line (m_line m) se0 \<and> run_ok (m_rawbits m') 0 \<and> low_bits 8 (m_bits m')
    \<and> m_needbits m' \<in> {7, 8}"
proof -
  have m: "m_state m \<noteq> MS_IDLE" "run_ok (m_rawbits m) k" "m_line m AND 3 = line_pair (lv p)" "m_needbits m = 8"
    "low_bits 8 (m_bits m)" "monitor_ok m"
    using assms by (simp_all add: mon_reading_def mon_at_def)
  let ?m = "m\<lparr>m_line := shift_line (m_line m) se0\<rparr>"
  have "se0 \<noteq> lv True" by (simp add: se0_def lv_def)
  note bit = mon_line_bit [OF m(1) disjI1 [OF this], folded shift_line_def, of cb sl log compact t]
  have nb: "(drop_bit 2 (m_line ?m AND 0xc) = m_line ?m AND 3) = False"
    using line_new(2) [of "m_line m" se0, folded shift_line_def] m(3) by (cases p) simp_all
  have raw: "run_ok (shift_in (m_rawbits m) False) 0" using run_ok_shift [OF m(2), of False] by simp
  have low: "low_bits 8 (drop_bit (Suc 0) (m_bits m))" using shift_bits_step(1) [OF m(5), of False] by simp
  show ?thesis
  proof (cases "k = 6")
    case True
    have "mon_line cb sl m log compact t se0 c = Inr (?m\<lparr>m_rawbits := shift_in (m_rawbits m) False\<rparr>, c)" for c
      unfolding bit using mon_bit_stuffed [OF nb] m(2) True by simp
    then show ?thesis
      using m raw by (intro exI [of _ "?m\<lparr>m_rawbits := shift_in (m_rawbits m) False\<rparr>"]) (simp add: mon_same_def)
  next
    case False
    let ?m1 = "?m\<lparr>m_rawbits := shift_in (m_rawbits m) False, m_bits := drop_bit 1 (m_bits m), m_needbits := 7\<rparr>"
    have "mon_line cb sl m log compact t se0 c = Inr (?m1, c)" for c
      unfolding bit using mon_bit_data [OF nb _ False] m(2,4) by simp
    then show ?thesis
      using m raw low by (intro exI [of _ ?m1]) (simp add: mon_same_def)
  qed
qed

lemma mon_run_eop:
  assumes "mon_reading m k p" "compact \<or> \<not> log \<or> m_byte m \<noteq> 1"
  shows "\<exists>m'. (\<forall>c. mon_run cb sl log compact t [se0, se0, lv True] m c =
      bnd (data_callback cb UsbMon_DataType_EOP 0 c) (\<lambda>c. Inr (m', c)))
    \<and> mon_ready m' \<and> m_byte m' = m_byte m \<and> m_bytes m' = m_bytes m \<and> m_lastpid m' = m_lastpid m"
proof -
  obtain m1 where 1: "\<And>c. mon_line cb sl m log compact t se0 c = Inr (m1, c)" "mon_same m m1" "monitor_ok m1"
    "m_line m1 = shift_line (m_line m) se0" "run_ok (m_rawbits m1) 0" "low_bits 8 (m_bits m1)" "m_needbits m1 \<in> {7, 8}"
    using mon_line_se0_first [OF assms(1), of cb sl log compact t] by blast
  have st: "m_state m1 = MS_GET_BYTES" "m_byte m1 = m_byte m" "m_bytes m1 = m_bytes m" "m_lastpid m1 = m_lastpid m"
    using assms(1) 1(2) by (simp_all add: mon_reading_def mon_same_def)
  let ?m = "m1\<lparr>m_line := shift_line (m_line m1) se0\<rparr>"
  let ?m2 = "?m\<lparr>m_rawbits := shift_in (m_rawbits m1) True, m_bits := drop_bit 1 (m_bits m1) OR 0x80,
    m_needbits := m_needbits m1 - 1\<rparr>"
  have "m_state m1 \<noteq> MS_IDLE" "se0 \<noteq> lv True" using st(1) by (simp_all add: se0_def lv_def)
  note bit = mon_line_bit [OF this(1) disjI1 [OF this(2)], folded shift_line_def, of cb sl log compact "t + 1"]
  have nb: "(drop_bit 2 (m_line ?m AND 0xc) = m_line ?m AND 3) = True"
    using line_new(2) [of "m_line m1" se0, folded shift_line_def] 1(4) by simp
  have 2: "mon_line cb sl m1 log compact (t + 1) se0 c = Inr (?m2, c)" for c
    unfolding bit using mon_bit_data [OF nb, of 0] 1(5,7) by auto
  have "take_bit 4 (m_line ?m2) = 0"
    by (simp add: 1(4) take_bit_shift_line) (simp add: shift_line_def)
  then have "m_line ?m2 AND 0xf = 0" by (simp add: take_bit_eq_mask mask_eq_exp_minus_1)
  then have eop: "shift_line (m_line ?m2) (lv True) AND 0x3f = eop_pattern"
    unfolding shift_line_def line_eop by simp
  let ?m3 = "?m2\<lparr>m_line := shift_line (m_line ?m2) (lv True)\<rparr>"
  obtain f where f: "\<And>c. mon_eop cb ?m3 log compact (t + 1 + 1) c =
      bnd (data_callback cb UsbMon_DataType_EOP 0 c) (\<lambda>c. Inr (?m3\<lparr>m_file := f, m_state := MS_IDLE\<rparr>, c))"
    using mon_eop_file [of ?m3 compact log cb "t + 1 + 1"] 1(3) assms(2) st(2) by auto
  have 3: "mon_line cb sl ?m2 log compact (t + 1 + 1) (lv True) c = mon_eop cb ?m3 log compact (t + 1 + 1) c" for c
    using st(1) eop unfolding mon_line_def shift_line_def [symmetric] Let_def by simp
  have "mon_run cb sl log compact t [se0, se0, lv True] m c =
      bnd (data_callback cb UsbMon_DataType_EOP 0 c) (\<lambda>c. Inr (?m3\<lparr>m_file := f, m_state := MS_IDLE\<rparr>, c))" for c
    unfolding mon_run.simps(2) [of _ _ _ _ _ _ "_ # _"] 1(1) bnd_Inr prod.case 2 mon_run_one 3 f by (rule refl)
  moreover have "mon_ready (?m3\<lparr>m_file := f, m_state := MS_IDLE\<rparr>)"
    using run_ok_shift [OF 1(5), of True] shift_bits_step(1) [OF 1(6), of True] 1(3)
    by (simp add: mon_ready_def)
  ultimately show ?thesis
    using st by (intro exI [of _ "?m3\<lparr>m_file := f, m_state := MS_IDLE\<rparr>"]) simp
qed

section \<open>The whole packet\<close>

text \<open>
  The nibbles of a PID are complementary, so its first zero comes before six ones: whether
  the receiver counts the last bit of SYNC in the run makes no difference.
\<close>

lemma pid_run:
  assumes "\<not> pid_bad pid"
  obtains j bs where "j \<le> 4" "bits_of 8 pid = replicate j True @ False # bs"
proof -
  have "bit (drop_bit 4 pid) 0 = bit ((NOT pid) AND 0xf) 0"
    using assms unfolding pid_bad_iff by simp
  then have b: "bit pid 4 \<longleftrightarrow> \<not> bit pid 0" by (simp add: bit_simps)
  have rep: "replicate 2 True = [True, True]" "replicate 3 True = [True, True, True]"
    "replicate 4 True = [True, True, True, True]" by (simp_all add: eval_nat_numeral)
  show thesis
  proof (cases "bit pid 0 \<and> bit pid 1 \<and> bit pid 2 \<and> bit pid 3")
    case True
    then show thesis using b by (intro that [of 4]) (simp_all add: bits_of_8 rep)
  next
    case False
    then consider "\<not> bit pid 0" | "bit pid 0" "\<not> bit pid 1" | "bit pid 0" "bit pid 1" "\<not> bit pid 2"
      | "bit pid 0" "bit pid 1" "bit pid 2" "\<not> bit pid 3" by blast
    then show thesis
    proof cases
      case 1 then show thesis by (intro that [of 0]) (simp_all add: bits_of_8)
    next
      case 2 then show thesis by (intro that [of 1]) (simp_all add: bits_of_8)
    next
      case 3 then show thesis by (intro that [of 2]) (simp_all add: bits_of_8 rep)
    next
      case 4 then show thesis by (intro that [of 3]) (simp_all add: bits_of_8 rep)
    qed
  qed
qed

lemma pid_run_irrelevant:
  assumes "\<not> pid_bad pid" "k \<le> 1"
  shows "stuff 1 (bits_of 8 pid @ bs) = stuff k (bits_of 8 pid @ bs)
    \<and> run_after 1 (bits_of 8 pid @ bs) = run_after k (bits_of 8 pid @ bs)"
proof -
  obtain j r where "j \<le> 4" "bits_of 8 pid = replicate j True @ False # r"
    by (rule pid_run [OF assms(1)])
  then show ?thesis
    using run_ones [of j 1 "r @ bs"] run_ones [of j k "r @ bs"] assms(2) by simp
qed

lemma mon_run_packet:
  assumes ready: "mon_ready m" and pid: "\<not> pid_bad pid" and len: "length ds < 256"
    and log: "compact \<or> \<not> log \<or> length ds \<noteq> 1"
  shows "\<exists>m'. (\<forall>c. mon_run cb sl log compact t (packet_lines tail (pid # ds)) m c =
      bnd (deliver cb sl pid ds c) (\<lambda>c. Inr (m', c)))
    \<and> mon_ready m' \<and> m_lastpid m' = pid \<and> unat (m_byte m') = length ds
    \<and> m_bytes m' = ds @ drop (length ds) (m_bytes m)"
proof -
  obtain r where r: "run_ok (m_rawbits m) r" "r \<le> 1" using ready by (auto simp: mon_ready_def)
  let ?P = "bits_of 8 pid" and ?D = "bytes_bits ds"
  let ?k = "run_after r ?P" and ?p = "level_after False (stuff r ?P)"
  let ?k' = "run_after ?k ?D" and ?p' = "level_after ?p (stuff ?k ?D)"
  let ?tail = "if tail \<and> ?k' = 6 then [lv (\<not> ?p')] else []"
  have lines: "packet_lines tail (pid # ds) =
      map lv (nrzi True sync_bits) @ coded r False ?P @ coded ?k ?p ?D @ ?tail @ [se0, se0, lv True]"
    using pid_run_irrelevant [OF pid r(2), of ?D]
    by (simp add: packet_lines_split stuff_append nrzi_append run_after_append level_after_append)
  let ?t1 = "t + of_nat (length (map lv (nrzi True sync_bits)))"
  let ?t2 = "?t1 + of_nat (length (coded r False ?P))"
  let ?t3 = "?t2 + of_nat (length (coded ?k ?p ?D))"
  obtain m1 where 1: "\<And>c. mon_run cb sl log compact t (map lv (nrzi True sync_bits)) m c =
      bnd (data_callback cb UsbMon_DataType_Sync 0 c) (\<lambda>c. Inr (m1, c))"
    "m_state m1 = MS_GET_PID" "m_line m1 AND 3 = line_pair (lv False)" "m_needbits m1 = 8"
    "m_rawbits m1 = m_rawbits m" "m_bits m1 = m_bits m" "m_bytes m1 = m_bytes m"
    using mon_run_sync [OF ready, of cb sl log compact t] by blast
  have s1: "mon_at m1 r False" "low_bits 8 (m_bits m1)" "monitor_ok m1"
    using r(1) 1(3,5-7) ready by (simp_all add: mon_at_def mon_ready_def monitor_ok_def)
  obtain m2 where 2: "\<And>c. mon_run cb sl log compact ?t1 (coded r False ?P) m1 c =
      bnd (data_callback cb UsbMon_DataType_PID pid (sl pid c)) (\<lambda>c. Inr (m2, c))"
    "mon_reading m2 ?k ?p" "m_byte m2 = 0" "m_bytes m2 = m_bytes m" "m_lastpid m2 = pid"
    using mon_run_pid [OF 1(2) s1(1) 1(4) s1(2,3) pid, of cb sl log compact ?t1] 1(7) by auto
  obtain m3 where 3: "\<And>c. mon_run cb sl log compact ?t2 (coded ?k ?p ?D) m2 c =
      bnd (deliver_bytes cb ds c) (\<lambda>c. Inr (m3, c))"
    "mon_reading m3 ?k' ?p'" "unat (m_byte m3) = length ds" "m_lastpid m3 = pid"
    "m_bytes m3 = ds @ drop (length ds) (m_bytes m)"
    using mon_run_bytes [OF 2(2), of ds cb sl log compact ?t2] 2(3-5) len by auto
  obtain m4 k p where 4: "\<And>c. mon_run cb sl log compact ?t3 ?tail m3 c = Inr (m4, c)"
    "mon_reading m4 k p" "m_byte m4 = m_byte m3" "m_lastpid m4 = m_lastpid m3" "m_bytes m4 = m_bytes m3"
  proof (cases "tail \<and> ?k' = 6")
    case False
    then show thesis using 3(2) by (intro that [of m3]) auto
  next
    case True
    have m3: "m_state m3 \<noteq> MS_IDLE" "mon_at m3 6 ?p'" using 3(2) True by (simp_all add: mon_reading_def)
    obtain m4 where m4: "\<And>c. mon_line cb sl m3 log compact ?t3 (lv (\<not> ?p')) c = Inr (m4, c)" "mon_same m3 m4"
      "m_bits m4 = m_bits m3" "m_needbits m4 = m_needbits m3" "mon_at m4 0 (\<not> ?p')"
      using mon_line_stuffed [OF m3, of cb sl log compact ?t3] by blast
    then show thesis
      using 3(2) True by (intro that [of m4 0 "\<not> ?p'"]) (simp_all add: mon_reading_def mon_same_def monitor_ok_def del: mon_run.simps)
  qed
  have "m_byte m4 \<noteq> 1" if "length ds \<noteq> 1" using that 3(3) 4(3) by auto
  then obtain m5 where 5: "\<And>c. mon_run cb sl log compact (?t3 + of_nat (length ?tail)) [se0, se0, lv True] m4 c =
      bnd (data_callback cb UsbMon_DataType_EOP 0 c) (\<lambda>c. Inr (m5, c))"
    "mon_ready m5" "m_byte m5 = m_byte m4" "m_bytes m5 = m_bytes m4" "m_lastpid m5 = m_lastpid m4"
    using mon_run_eop [OF 4(2), of compact log cb sl "?t3 + of_nat (length ?tail)"] log by blast
  have "mon_run cb sl log compact t (packet_lines tail (pid # ds)) m c =
      bnd (deliver cb sl pid ds c) (\<lambda>c. Inr (m5, c))" for c
    unfolding lines mon_run_append 1(1) bnd_assoc bnd_Inr prod.case 2(1) 3(1) 4(1) 5(1) deliver_def by (rule refl)
  then show ?thesis
    using 3(3-5) 4(3-5) 5(2-5) by (intro exI [of _ m5]) simp
qed

end
