(* ===== verification/Host_Encode.thy ===== *)
theory Host_Encode
  imports Invariant Line_Coding
begin

text \<open>
  The line driver of the host sends what the coding of \<open>Line_Coding\<close> says: from the state in
  which a transfer has been handed over it drives, one bit interval after the other, the
  packet that the descriptor holds, and with a data stage the data packet after it.
\<close>

section \<open>The pair as it is driven\<close>

text \<open>The device swaps the pair when its pullup is on D-.\<close>

definition bus_lines :: "u32 \<Rightarrow> u32 \<Rightarrow> bool \<times> bool" where
  "bus_lines d2p driving = swap_lines d2p (has driving P2D_DP, has driving P2D_DN)"

lemma pins:
  "has (x :: u32) 8 \<longleftrightarrow> bit x 3" "has x 4 \<longleftrightarrow> bit x 2" "has x 2 \<longleftrightarrow> bit x 1" "has x 1 \<longleftrightarrow> bit x 0"
  using has_push_bit_1 [of 3 x] has_push_bit_1 [of 2 x] has_push_bit_1 [of 1 x] has_push_bit_1 [of 0 x]
  by simp_all

lemma bus_lines_driven [simp]:
  "bus_lines d2p (set_driving c d2p 4 oe) = lv True" "bus_lines d2p (set_driving c d2p 2 oe) = lv False"
  "bus_lines d2p (set_driving c d2p 0 oe) = se0"
  by (simp_all add: bus_lines_def set_driving_def swap_lines_def Let_def pins lv_def se0_def bit_simps)

lemma bus_lines_inv:
  "bus_lines d2p (c_driving c) = lv p \<Longrightarrow> bus_lines d2p (inv_driving c d2p) = lv (\<not> p)"
  by (auto simp: bus_lines_def inv_driving_def swap_lines_def pins lv_def bit_simps split: if_splits)

section \<open>The driver in sequence\<close>

text \<open>
  \<open>n\<close> bit intervals in which the driver has something to send, with the state of the pair
  after each.
\<close>

fun drive_run :: "nat \<Rightarrow> u32 \<Rightarrow> ctx \<Rightarrow> ((bool \<times> bool) list \<times> ctx) res" where
  "drive_run 0 d2p c = Inr ([], c)"
| "drive_run (Suc n) d2p c =
     bnd (cassert ''transmitting'' (transmitting (c_state c))) (\<lambda>_.
     bnd (host_drive c d2p) (\<lambda>(_, c).
     bnd (drive_run n d2p c) (\<lambda>(ls, c'). Inr (bus_lines d2p (c_driving c) # ls, c'))))"

lemma drive_run_append:
  "drive_run m d2p c = Inr (xs, c1) \<Longrightarrow> drive_run n d2p c1 = Inr (ys, c2) \<Longrightarrow>
   drive_run (m + n) d2p c = Inr (xs @ ys, c2)"
proof (induction m arbitrary: c xs)
  case (Suc m)
  then obtain b c' ls where 1: "host_drive c d2p = Inr (b, c')" "drive_run m d2p c' = Inr (ls, c1)"
    "xs = bus_lines d2p (c_driving c') # ls" "transmitting (c_state c)"
    by (auto simp: bnd_eq_Inr_iff cassert_def split: if_splits)
  from Suc.IH [OF 1(2) Suc.prems(2)] show ?case using 1(1,3,4) by simp
qed simp

text \<open>The fields of the context that the driver changes while it sends.\<close>

definition tx :: "ctx \<Rightarrow> u32 \<Rightarrow> u32 \<Rightarrow> u32 \<Rightarrow> nat \<Rightarrow> drv_state \<Rightarrow> ctx" where
  "tx c D L B N S = c\<lparr>c_driving := D, c_linebits := L, c_bit := B, c_byte := N, c_state := S\<rparr>"

lemma tx_sel [simp]:
  "c_driving (tx c D L B N S) = D" "c_linebits (tx c D L B N S) = L" "c_bit (tx c D L B N S) = B"
  "c_byte (tx c D L B N S) = N" "c_state (tx c D L B N S) = S" "c_sending (tx c D L B N S) = c_sending c"
  "c_pool (tx c D L B N S) = c_pool c"
  by (simp_all add: tx_def)

lemma tx_upd [simp]:
  "(tx c D L B N S)\<lparr>c_driving := D'\<rparr> = tx c D' L B N S" "(tx c D L B N S)\<lparr>c_linebits := D'\<rparr> = tx c D D' B N S"
  "(tx c D L B N S)\<lparr>c_bit := D'\<rparr> = tx c D L D' N S" "(tx c D L B N S)\<lparr>c_byte := M\<rparr> = tx c D L B M S"
  "(tx c D L B N S)\<lparr>c_state := st\<rparr> = tx c D L B N st"
  by (simp_all add: tx_def)

lemma tx_eq_iff [simp]:
  "tx c D L B N S = tx c D' L' B' N' S' \<longleftrightarrow> D = D' \<and> L = L' \<and> B = B' \<and> N = N' \<and> S = S'"
  by (metis tx_sel(1-5))

lemma tx_self: "tx c (c_driving c) (c_linebits c) (c_bit c) (c_byte c) (c_state c) = c"
  by (simp add: tx_def)

lemma get_tr_tx [simp]: "get_tr (tx c D L B N S) tr = get_tr c tr"
  by (simp add: get_tr_def)

lemma bit_mask_advance:
  assumes "j < 8"
  shows "push_bit 1 (push_bit j (1 :: u32)) = push_bit (Suc j) 1" "push_bit (Suc j) (1 :: u32) = 0x100 \<longleftrightarrow> j = 7"
proof -
  show "push_bit 1 (push_bit j (1 :: u32)) = push_bit (Suc j) 1" by (simp add: push_bit_push_bit del: push_bit_of_1)
  from assms have "j \<in> {0, 1, 2, 3, 4, 5, 6, 7}" by auto
  then show "push_bit (Suc j) (1 :: u32) = 0x100 \<longleftrightarrow> j = 7" by auto
qed

section \<open>Bits\<close>

lemma tx_stuffed:
  assumes "c_sending c \<noteq> None" "run_ok L 6" "bus_lines d2p D = lv p"
  shows "\<exists>D'. host_drive (tx c D L B N ST_SEND) d2p = Inr (True, tx c D' (shift_in L False) B N ST_SEND)
    \<and> bus_lines d2p D' = lv (\<not> p)"
  using assms bus_lines_inv [of d2p "tx c D L B N ST_SEND" p] run_ok_mask [OF assms(2)]
  by (auto simp: host_drive_def drive_send_def shift_in_def)

lemma tx_data_mask:
  assumes "c_sending c = Some i" "i < length (c_pool c)" "run_ok L k" "k \<noteq> 6" "bus_lines d2p D = lv p"
    and "N < unat (t_num_bytes (c_pool c ! i))" "N < length (t_data (c_pool c ! i))"
    and "has (to_u32 (t_data (c_pool c ! i) ! N)) B = b" "B * 2 = B'"
  shows "\<exists>D'. host_drive (tx c D L B N ST_SEND) d2p = Inr (True,
      if B' = 0x100 then tx c D' (shift_in L b) 1 (N + 1)
        (if N + 1 = unat (t_data_start (c_pool c ! i)) then ST_EOP0 else ST_SEND)
      else tx c D' (shift_in L b) B' N ST_SEND)
    \<and> bus_lines d2p D' = lv (p = b)"
proof -
  define D' where "D' = (if b then D else inv_driving (tx c D L B N ST_SEND) d2p)"
  have m: "L AND 0x3f \<noteq> 0x3f" using run_ok_mask [OF assms(3)] assms(4) by simp
  have "bus_lines d2p D' = lv (p = b)"
    using assms(5) bus_lines_inv [of d2p "tx c D L B N ST_SEND" p] by (simp add: D'_def)
  moreover have "host_drive (tx c D L B N ST_SEND) d2p = Inr (True,
      if B' = 0x100 then tx c D' (shift_in L b) 1 (N + 1)
        (if N + 1 = unat (t_data_start (c_pool c ! i)) then ST_EOP0 else ST_SEND)
      else tx c D' (shift_in L b) B' N ST_SEND)"
    using assms(1,2,6-9) m
    unfolding host_drive_def tx_sel drv_state.case drive_send_def Let_def shift_in_def [symmetric]
    by (cases b) (simp_all add: get_tr_Some D'_def)
  ultimately show ?thesis by blast
qed

lemma tx_data:
  assumes "c_sending c = Some i" "i < length (c_pool c)" "run_ok L k" "k \<noteq> 6" "bus_lines d2p D = lv p" "j < 8"
    and "N < unat (t_num_bytes (c_pool c ! i))" "N < length (t_data (c_pool c ! i))"
    and "b = bit (t_data (c_pool c ! i) ! N) j"
  shows "\<exists>D'. host_drive (tx c D L (push_bit j 1) N ST_SEND) d2p = Inr (True,
      if j = 7 then tx c D' (shift_in L b) 1 (N + 1)
        (if N + 1 = unat (t_data_start (c_pool c ! i)) then ST_EOP0 else ST_SEND)
      else tx c D' (shift_in L b) (push_bit (Suc j) 1) N ST_SEND)
    \<and> bus_lines d2p D' = lv (p = b)"
proof -
  have "has (to_u32 (t_data (c_pool c ! i) ! N)) (push_bit j 1) = b"
    using has_push_bit_1 [of j "to_u32 (t_data (c_pool c ! i) ! N)"] assms(6,9) by (simp add: bit_simps)
  moreover have "push_bit j 1 * 2 = push_bit (Suc j) (1 :: u32)"
    using bit_mask_advance(1) [OF assms(6)] by simp
  ultimately show ?thesis
    using tx_data_mask [OF assms(1-5,7,8)] unfolding bit_mask_advance(2) [OF assms(6), symmetric] by blast
qed

text \<open>The descriptor that is being sent.\<close>

definition tx_ok :: "ctx \<Rightarrow> nat \<Rightarrow> bool" where
  "tx_ok c i \<longleftrightarrow> c_sending c = Some i \<and> i < length (c_pool c) \<and> wf_transfer (c_pool c ! i)"

text \<open>The state after the byte before position \<open>N\<close>.\<close>

definition tx_next :: "transfer \<Rightarrow> nat \<Rightarrow> drv_state" where
  "tx_next t N = (if N = unat (t_data_start t) then ST_EOP0 else ST_SEND)"

lemma tx_bit:
  assumes "tx_ok c i" "run_ok L k" "bus_lines d2p D = lv p" "j < 8"
    and "N < unat (t_num_bytes (c_pool c ! i))" "b = bit (t_data (c_pool c ! i) ! N) j"
  shows "\<exists>D' L'. drive_run (length (stuff k [b])) d2p (tx c D L (push_bit j 1) N ST_SEND) = Inr (coded k p [b],
      if j = 7 then tx c D' L' 1 (N + 1) (tx_next (c_pool c ! i) (N + 1))
      else tx c D' L' (push_bit (Suc j) 1) N ST_SEND)
    \<and> run_ok L' (run_next k b) \<and> bus_lines d2p D' = lv (level_after p (stuff k [b]))"
proof -
  have ok: "c_sending c = Some i" "i < length (c_pool c)" "N < length (t_data (c_pool c ! i))"
    using assms(1,5) by (auto simp: tx_ok_def wf_transfer_def)
  have step: "\<exists>D'. drive_run 1 d2p (tx c D L (push_bit j 1) N ST_SEND) = Inr ([lv (p = b)],
      if j = 7 then tx c D' (shift_in L b) 1 (N + 1) (tx_next (c_pool c ! i) (N + 1))
      else tx c D' (shift_in L b) (push_bit (Suc j) 1) N ST_SEND)
    \<and> run_ok (shift_in L b) (if b then k + 1 else 0) \<and> bus_lines d2p D' = lv (p = b)"
    if "run_ok L k" "k \<noteq> 6" "bus_lines d2p D = lv p" for D L k p
  proof -
    note run = that
    obtain D' where "host_drive (tx c D L (push_bit j 1) N ST_SEND) d2p = Inr (True,
        if j = 7 then tx c D' (shift_in L b) 1 (N + 1) (tx_next (c_pool c ! i) (N + 1))
        else tx c D' (shift_in L b) (push_bit (Suc j) 1) N ST_SEND)" "bus_lines d2p D' = lv (p = b)"
      using tx_data [OF ok(1,2) run assms(4,5) ok(3) assms(6)] unfolding tx_next_def by blast
    moreover have "k < 6" using that(1,2) by (simp add: run_ok_def)
    ultimately show ?thesis
      using run_ok_shift [OF that(1), of b] by (intro exI [of _ D']) simp
  qed
  show ?thesis
  proof (cases "k = 6")
    case False
    obtain D' where "drive_run 1 d2p (tx c D L (push_bit j 1) N ST_SEND) = Inr ([lv (p = b)],
        if j = 7 then tx c D' (shift_in L b) 1 (N + 1) (tx_next (c_pool c ! i) (N + 1))
        else tx c D' (shift_in L b) (push_bit (Suc j) 1) N ST_SEND)"
      "run_ok (shift_in L b) (if b then k + 1 else 0)" "bus_lines d2p D' = lv (p = b)"
      using step [OF assms(2) False assms(3)] by blast
    note h = this
    show ?thesis
      by (rule exI [of _ D'], rule exI [of _ "shift_in L b"])
        (use False h in \<open>cases b; simp add: run_next_def del: drive_run.simps push_bit_of_1\<close>)
  next
    case True
    obtain D1 where 1: "host_drive (tx c D L (push_bit j 1) N ST_SEND) d2p =
        Inr (True, tx c D1 (shift_in L False) (push_bit j 1) N ST_SEND)" "bus_lines d2p D1 = lv (\<not> p)"
      using tx_stuffed [OF _ _ assms(3), of c L "push_bit j 1" N] ok(1) assms(2) True by auto
    have L1: "run_ok (shift_in L False) 0" using run_ok_shift [OF assms(2), of False] by simp
    obtain D' where 2: "drive_run 1 d2p (tx c D1 (shift_in L False) (push_bit j 1) N ST_SEND) = Inr ([lv ((\<not> p) = b)],
        if j = 7 then tx c D' (shift_in (shift_in L False) b) 1 (N + 1) (tx_next (c_pool c ! i) (N + 1))
        else tx c D' (shift_in (shift_in L False) b) (push_bit (Suc j) 1) N ST_SEND)"
      "run_ok (shift_in (shift_in L False) b) (if b then 0 + 1 else 0)" "bus_lines d2p D' = lv ((\<not> p) = b)"
      using step [OF L1 zero_neq_numeral 1(2)] by blast
    have "drive_run 1 d2p (tx c D L (push_bit j 1) N ST_SEND) =
        Inr ([lv (\<not> p)], tx c D1 (shift_in L False) (push_bit j 1) N ST_SEND)"
      using 1 by simp
    note h = drive_run_append [OF this 2(1)]
    show ?thesis
      by (rule exI [of _ D'], rule exI [of _ "shift_in (shift_in L False) b"])
        (use True 2(2,3) h in \<open>cases b; simp add: run_next_def numeral_2_eq_2 del: drive_run.simps push_bit_of_1\<close>)
  qed
qed

section \<open>Bytes\<close>

lemma bits_of_snoc: "bits_of (Suc m) d = bits_of m d @ [bit d m]"
  by (simp add: bits_of_def)

lemma tx_bits:
  assumes "tx_ok c i" "run_ok L k" "bus_lines d2p D = lv p" "N < unat (t_num_bytes (c_pool c ! i))"
    and "d = t_data (c_pool c ! i) ! N" "m \<le> 7"
  shows "\<exists>D' L'. drive_run (length (stuff k (bits_of m d))) d2p (tx c D L 1 N ST_SEND) = Inr (coded k p (bits_of m d),
      tx c D' L' (push_bit m 1) N ST_SEND)
    \<and> run_ok L' (run_after k (bits_of m d)) \<and> bus_lines d2p D' = lv (level_after p (stuff k (bits_of m d)))"
  using assms(6)
proof (induction m)
  case 0
  then show ?case using assms(2,3) by (intro exI) (auto simp: bits_of_def)
next
  case (Suc m)
  let ?B = "bits_of m d" and ?b = "bit d m"
  let ?k = "run_after k ?B" and ?p = "level_after p (stuff k ?B)"
  obtain D1 L1 where 1: "drive_run (length (stuff k ?B)) d2p (tx c D L 1 N ST_SEND) =
      Inr (coded k p ?B, tx c D1 L1 (push_bit m 1) N ST_SEND)" "run_ok L1 ?k" "bus_lines d2p D1 = lv ?p"
    using Suc by auto
  obtain D2 L2 where 2: "drive_run (length (stuff ?k [?b])) d2p (tx c D1 L1 (push_bit m 1) N ST_SEND) =
      Inr (coded ?k ?p [?b], tx c D2 L2 (push_bit (Suc m) 1) N ST_SEND)"
    "run_ok L2 (run_next ?k ?b)" "bus_lines d2p D2 = lv (level_after ?p (stuff ?k [?b]))"
    using tx_bit [OF assms(1) 1(2,3) _ assms(4), of m ?b] Suc.prems assms(5) by auto
  have "drive_run (length (stuff k (bits_of (Suc m) d))) d2p (tx c D L 1 N ST_SEND) =
      Inr (coded k p (bits_of (Suc m) d), tx c D2 L2 (push_bit (Suc m) 1) N ST_SEND)"
    using drive_run_append [OF 1(1) 2(1)] unfolding bits_of_snoc stuff_append nrzi_append map_append length_append .
  moreover have "run_after k (bits_of (Suc m) d) = run_next ?k ?b"
    by (simp add: bits_of_snoc run_after_append)
  moreover have "level_after p (stuff k (bits_of (Suc m) d)) = level_after ?p (stuff ?k [?b])"
    unfolding bits_of_snoc stuff_append level_after_append ..
  ultimately show ?case
    using 2(2,3) by (intro exI conjI) simp_all
qed

lemma tx_byte:
  assumes "tx_ok c i" "run_ok L k" "bus_lines d2p D = lv p" "N < unat (t_num_bytes (c_pool c ! i))"
    and "d = t_data (c_pool c ! i) ! N"
  shows "\<exists>D' L'. drive_run (length (stuff k (bits_of 8 d))) d2p (tx c D L 1 N ST_SEND) = Inr (coded k p (bits_of 8 d),
      tx c D' L' 1 (N + 1) (tx_next (c_pool c ! i) (N + 1)))
    \<and> run_ok L' (run_after k (bits_of 8 d)) \<and> bus_lines d2p D' = lv (level_after p (stuff k (bits_of 8 d)))"
proof -
  let ?B = "bits_of 7 d" and ?b = "bit d 7"
  let ?k = "run_after k ?B" and ?p = "level_after p (stuff k ?B)"
  have d: "bits_of 8 d = ?B @ [?b]" using bits_of_snoc [of 7 d] by simp
  obtain D1 L1 where 1: "drive_run (length (stuff k ?B)) d2p (tx c D L 1 N ST_SEND) =
      Inr (coded k p ?B, tx c D1 L1 (push_bit 7 1) N ST_SEND)" "run_ok L1 ?k" "bus_lines d2p D1 = lv ?p"
    using tx_bits [OF assms, of 7] by auto
  obtain D2 L2 where 2: "drive_run (length (stuff ?k [?b])) d2p (tx c D1 L1 (push_bit 7 1) N ST_SEND) =
      Inr (coded ?k ?p [?b], tx c D2 L2 1 (N + 1) (tx_next (c_pool c ! i) (N + 1)))"
    "run_ok L2 (run_next ?k ?b)" "bus_lines d2p D2 = lv (level_after ?p (stuff ?k [?b]))"
    using tx_bit [OF assms(1) 1(2,3) _ assms(4), of 7 ?b] assms(5) by auto
  have "drive_run (length (stuff k (bits_of 8 d))) d2p (tx c D L 1 N ST_SEND) =
      Inr (coded k p (bits_of 8 d), tx c D2 L2 1 (N + 1) (tx_next (c_pool c ! i) (N + 1)))"
    using drive_run_append [OF 1(1) 2(1)] unfolding d stuff_append nrzi_append map_append length_append .
  moreover have "run_after k (bits_of 8 d) = run_next ?k ?b"
    unfolding d by (simp add: run_after_append)
  moreover have "level_after p (stuff k (bits_of 8 d)) = level_after ?p (stuff ?k [?b])"
    unfolding d stuff_append level_after_append ..
  ultimately show ?thesis
    using 2(2,3) by (intro exI conjI) simp_all
qed

lemma tx_bytes:
  assumes "tx_ok c i" "run_ok L k" "bus_lines d2p D = lv p"
    and "N + length ds \<le> unat (t_num_bytes (c_pool c ! i))"
    and "take (length ds) (drop N (t_data (c_pool c ! i))) = ds"
    and "\<forall>M. N < M \<and> M < N + length ds \<longrightarrow> M \<noteq> unat (t_data_start (c_pool c ! i))"
  shows "\<exists>D' L'. drive_run (length (stuff k (bytes_bits ds))) d2p (tx c D L 1 N ST_SEND) = Inr (coded k p (bytes_bits ds),
      tx c D' L' 1 (N + length ds) (if ds = [] then ST_SEND else tx_next (c_pool c ! i) (N + length ds)))
    \<and> run_ok L' (run_after k (bytes_bits ds)) \<and> bus_lines d2p D' = lv (level_after p (stuff k (bytes_bits ds)))"
  using assms(2-6)
proof (induction ds arbitrary: D L k p N)
  case Nil
  then show ?case by (intro exI) auto
next
  case (Cons d ds)
  let ?t = "c_pool c ! i"
  let ?k = "run_after k (bits_of 8 d)" and ?p = "level_after p (stuff k (bits_of 8 d))"
  have N: "N < unat (t_num_bytes ?t)" using Cons.prems(3) by simp
  then have len: "N < length (t_data ?t)" using assms(1) by (simp add: tx_ok_def wf_transfer_def)
  have d: "d = t_data ?t ! N" "take (length ds) (drop (N + 1) (t_data ?t)) = ds"
    using Cons.prems(4) unfolding Cons_nth_drop_Suc [OF len, symmetric] by simp_all
  obtain D1 L1 where 1: "drive_run (length (stuff k (bits_of 8 d))) d2p (tx c D L 1 N ST_SEND) = Inr (coded k p (bits_of 8 d),
      tx c D1 L1 1 (N + 1) (tx_next ?t (N + 1)))" "run_ok L1 ?k" "bus_lines d2p D1 = lv ?p"
    using tx_byte [OF assms(1) Cons.prems(1,2) N d(1)] by blast
  obtain D2 L2 where 2: "drive_run (length (stuff ?k (bytes_bits ds))) d2p (tx c D1 L1 1 (N + 1) ST_SEND) =
      Inr (coded ?k ?p (bytes_bits ds),
        tx c D2 L2 1 (N + 1 + length ds) (if ds = [] then ST_SEND else tx_next ?t (N + 1 + length ds)))"
    "run_ok L2 (run_after ?k (bytes_bits ds))" "bus_lines d2p D2 = lv (level_after ?p (stuff ?k (bytes_bits ds)))"
    using Cons.IH [OF 1(2,3) _ d(2)] Cons.prems(3,5) by auto
  have run: "run_after k (bytes_bits (d # ds)) = run_after ?k (bytes_bits ds)"
    by (simp add: run_after_append)
  have level: "level_after p (stuff k (bytes_bits (d # ds))) = level_after ?p (stuff ?k (bytes_bits ds))"
    by (simp add: stuff_append level_after_append)
  have "drive_run (length (stuff k (bytes_bits (d # ds)))) d2p (tx c D L 1 N ST_SEND) = Inr (coded k p (bytes_bits (d # ds)),
      tx c D2 L2 1 (N + length (d # ds)) (tx_next ?t (N + length (d # ds))))"
  proof (cases "ds = []")
    case True
    then show ?thesis using 1(1) 2(1) by simp
  next
    case False
    then have "tx_next ?t (N + 1) = ST_SEND" using Cons.prems(5) by (simp add: tx_next_def)
    from drive_run_append [OF 1(1) [unfolded this] 2(1)] False show ?thesis
      by (simp add: stuff_append nrzi_append)
  qed
  then show ?case
    using 2(2,3) unfolding run level by (intro exI conjI) simp_all
qed

section \<open>SYNC and end of packet\<close>

lemma set_driving_tx [simp]:
  "set_driving (tx c D L B N S) d2p v oe = set_driving (zero_ctx\<lparr>c_driving := D\<rparr>) d2p v oe"
  by (simp add: set_driving_def)

abbreviation driven :: "u32 \<Rightarrow> u32 \<Rightarrow> u32 \<Rightarrow> bool \<Rightarrow> u32" where
  "driven D \<equiv> set_driving (zero_ctx\<lparr>c_driving := D\<rparr>)"

lemma drive_run_numeral:
  "drive_run (numeral n) d2p c = bnd (cassert ''transmitting'' (transmitting (c_state c))) (\<lambda>_.
     bnd (host_drive c d2p) (\<lambda>(_, c).
     bnd (drive_run (pred_numeral n) d2p c) (\<lambda>(ls, c'). Inr (bus_lines d2p (c_driving c) # ls, c'))))"
  by (simp add: numeral_eq_Suc)

lemma tx_sync_step:
  "host_drive (tx c D L B N ST_SYNC) d2p = Inr (True,
     if B * 2 = 0x100 then tx c (driven D d2p (if has USB_SYNC B then 4 else 2) True) 1 1 N ST_SEND
     else tx c (driven D d2p (if has USB_SYNC B then 4 else 2) True) L (B * 2) N ST_SYNC)"
  by (simp add: host_drive_def drive_sync_def Let_def)

lemma tx_sync:
  "\<exists>D'. drive_run 8 d2p (tx c D L 1 N ST_SYNC) = Inr (map lv (nrzi True sync_bits), tx c D' 1 1 N ST_SEND)
    \<and> bus_lines d2p D' = lv False"
  by (simp add: drive_run_numeral tx_sync_step has_def sync_bits_def)

lemma tx_se0:
  assumes "tx_ok c i" "run_ok L k" "k \<noteq> 6" "unat (t_num_bytes (c_pool c ! i)) \<le> N"
  shows "host_drive (tx c D L 1 N ST_SEND) d2p = Inr (True, tx c (driven D d2p 0 True) L 1 N ST_EOP)"
  using assms run_ok_mask [OF assms(2)]
  by (auto simp: host_drive_def drive_send_def tx_ok_def get_tr_Some Let_def)

lemma tx_eop0:
  "host_drive (tx c D L 1 N ST_EOP0) d2p = Inr (False, tx c (driven D d2p 0 True) L 1 N ST_EOP)"
  by (simp add: host_drive_def drive_eop0_def)

lemma tx_eop_steps:
  "host_drive (tx c D L 1 N ST_EOP) d2p = Inr (False, tx c D L 2 N ST_EOP)"
  "host_drive (tx c D L 2 N ST_EOP) d2p = Inr (False, tx c (driven D d2p 4 True) L 4 N ST_EOP)"
  "tx_ok c i \<Longrightarrow> has d2p D2P_PU \<Longrightarrow> host_drive (tx c D L 4 N ST_EOP) d2p = Inr (False,
     if N = unat (t_data_start (c_pool c ! i)) then tx c (driven D d2p 4 False) L 1 N ST_SYNC
     else tx c (driven D d2p 4 False) L 4 N ST_IDLE)"
  by (simp_all add: host_drive_def drive_eop_def Let_def tx_ok_def get_tr_Some)

lemma tx_eop:
  assumes "tx_ok c i" "has d2p D2P_PU" "bus_lines d2p D = se0"
  shows "\<exists>D'. drive_run 3 d2p (tx c D L 1 N ST_EOP) = Inr ([se0, lv True, lv True],
      if N = unat (t_data_start (c_pool c ! i)) then tx c D' L 1 N ST_SYNC else tx c D' L 4 N ST_IDLE)
    \<and> bus_lines d2p D' = lv True"
  by (rule exI [of _ "driven (driven D d2p 4 True) d2p 4 False"])
    (simp add: drive_run_numeral tx_eop_steps tx_eop_steps(3) [OF assms(1,2)] assms(3))

section \<open>Packets\<close>

lemma length_nrzi [simp]: "length (nrzi p bs) = length bs"
  by (induction bs arbitrary: p) simp_all

text \<open>SYNC and the bytes from \<open>N\<close> on.\<close>

lemma tx_body:
  assumes "tx_ok c i" "ds \<noteq> []" "N + length ds \<le> unat (t_num_bytes (c_pool c ! i))"
    and "take (length ds) (drop N (t_data (c_pool c ! i))) = ds"
    and "\<forall>M. N < M \<and> M < N + length ds \<longrightarrow> M \<noteq> unat (t_data_start (c_pool c ! i))"
  shows "\<exists>D' L'. drive_run (8 + length (stuff 1 (bytes_bits ds))) d2p (tx c D L 1 N ST_SYNC) =
      Inr (map lv (nrzi True sync_bits) @ coded 1 False (bytes_bits ds),
        tx c D' L' 1 (N + length ds) (tx_next (c_pool c ! i) (N + length ds)))
    \<and> run_ok L' (run_after 1 (bytes_bits ds)) \<and> bus_lines d2p D' = lv (level_after False (stuff 1 (bytes_bits ds)))"
proof -
  obtain D1 where 1: "drive_run 8 d2p (tx c D L 1 N ST_SYNC) = Inr (map lv (nrzi True sync_bits), tx c D1 1 1 N ST_SEND)"
    "bus_lines d2p D1 = lv False"
    using tx_sync by blast
  have "run_ok 1 1" by (auto simp: run_ok_def bit_1_iff)
  from tx_bytes [OF assms(1) this 1(2) assms(3-5)] assms(2) obtain D' L' where
    2: "drive_run (length (stuff 1 (bytes_bits ds))) d2p (tx c D1 1 1 N ST_SEND) = Inr (coded 1 False (bytes_bits ds),
        tx c D' L' 1 (N + length ds) (tx_next (c_pool c ! i) (N + length ds)))"
      "run_ok L' (run_after 1 (bytes_bits ds))" "bus_lines d2p D' = lv (level_after False (stuff 1 (bytes_bits ds)))"
    by auto
  from drive_run_append [OF 1(1) 2(1)] 2(2,3) show ?thesis by blast
qed

text \<open>The token packet of a transfer with a data stage: the data stage follows at once.\<close>

lemma packet_lines_tail:
  "length (packet_lines False ds) + 1 = 8 + length (stuff 1 (bytes_bits ds)) + (1 + 3)"
  "packet_lines False ds @ [lv True] = (map lv (nrzi True sync_bits) @ coded 1 False (bytes_bits ds))
     @ [se0] @ [se0, lv True, lv True]"
  by (simp_all add: packet_lines_split sync_bits_def)

lemma packet_lines_True:
  "run_after 1 (bytes_bits ds) \<noteq> 6 \<Longrightarrow> packet_lines True ds = packet_lines False ds"
  "run_after 1 (bytes_bits ds) = 6 \<Longrightarrow>
     length (packet_lines True ds) + 1 = 8 + length (stuff 1 (bytes_bits ds)) + (1 + 4)
     \<and> packet_lines True ds @ [lv True] = (map lv (nrzi True sync_bits) @ coded 1 False (bytes_bits ds))
         @ [lv (\<not> level_after False (stuff 1 (bytes_bits ds)))] @ [se0, se0, lv True, lv True]"
  by (simp_all add: packet_lines_split sync_bits_def)

lemma tx_packet_stage:
  assumes "tx_ok c i" "has d2p D2P_PU" "ds \<noteq> []" "N + length ds = unat (t_data_start (c_pool c ! i))"
    and "unat (t_data_start (c_pool c ! i)) \<le> unat (t_num_bytes (c_pool c ! i))"
    and "take (length ds) (drop N (t_data (c_pool c ! i))) = ds"
  shows "\<exists>D' L'. drive_run (length (packet_lines False ds) + 1) d2p (tx c D L 1 N ST_SYNC) =
      Inr (packet_lines False ds @ [lv True], tx c D' L' 1 (N + length ds) ST_SYNC)
    \<and> bus_lines d2p D' = lv True"
proof -
  let ?e = "N + length ds"
  have nx: "tx_next (c_pool c ! i) ?e = ST_EOP0" using assms(4) by (simp add: tx_next_def)
  obtain D1 L1 where 1: "drive_run (8 + length (stuff 1 (bytes_bits ds))) d2p (tx c D L 1 N ST_SYNC) =
      Inr (map lv (nrzi True sync_bits) @ coded 1 False (bytes_bits ds), tx c D1 L1 1 ?e ST_EOP0)"
    using tx_body [OF assms(1,3) _ assms(6), of d2p D L] assms(4,5) unfolding nx by auto
  let ?D = "driven D1 d2p 0 True"
  obtain D2 where 2: "drive_run 3 d2p (tx c ?D L1 1 ?e ST_EOP) = Inr ([se0, lv True, lv True], tx c D2 L1 1 ?e ST_SYNC)"
    "bus_lines d2p D2 = lv True"
    using tx_eop [OF assms(1,2), of ?D L1 ?e] assms(4) by auto
  have "drive_run 1 d2p (tx c D1 L1 1 ?e ST_EOP0) = Inr ([se0], tx c ?D L1 1 ?e ST_EOP)"
    using tx_eop0 [of c D1 L1 ?e d2p] by simp
  from drive_run_append [OF 1 drive_run_append [OF this 2(1)]]
  have "drive_run (length (packet_lines False ds) + 1) d2p (tx c D L 1 N ST_SYNC) =
      Inr (packet_lines False ds @ [lv True], tx c D2 L1 1 ?e ST_SYNC)"
    unfolding packet_lines_tail .
  then show ?thesis using 2(2) by blast
qed

text \<open>The last packet of a transfer.\<close>

lemma tx_packet_last:
  assumes "tx_ok c i" "has d2p D2P_PU" "ds \<noteq> []" "N + length ds = unat (t_num_bytes (c_pool c ! i))"
    and "take (length ds) (drop N (t_data (c_pool c ! i))) = ds"
    and "\<forall>M. N < M \<and> M \<le> N + length ds \<longrightarrow> M \<noteq> unat (t_data_start (c_pool c ! i))"
  shows "\<exists>D' L'. drive_run (length (packet_lines True ds) + 1) d2p (tx c D L 1 N ST_SYNC) =
      Inr (packet_lines True ds @ [lv True], tx c D' L' 4 (N + length ds) ST_IDLE)
    \<and> bus_lines d2p D' = lv True"
proof -
  let ?e = "N + length ds" and ?k = "run_after 1 (bytes_bits ds)"
  let ?p = "level_after False (stuff 1 (bytes_bits ds))"
  have e: "?e \<noteq> unat (t_data_start (c_pool c ! i))" using assms(3,6) by simp
  then have nx: "tx_next (c_pool c ! i) ?e = ST_SEND" by (simp add: tx_next_def)
  obtain D1 L1 where 1: "drive_run (8 + length (stuff 1 (bytes_bits ds))) d2p (tx c D L 1 N ST_SYNC) =
      Inr (map lv (nrzi True sync_bits) @ coded 1 False (bytes_bits ds), tx c D1 L1 1 ?e ST_SEND)"
    "run_ok L1 ?k" "bus_lines d2p D1 = lv ?p"
    using tx_body [OF assms(1,3) _ assms(5), of d2p D L] assms(4,6) unfolding nx by auto
  have eop: "\<exists>D'. drive_run 4 d2p (tx c D L 1 ?e ST_SEND) = Inr ([se0, se0, lv True, lv True], tx c D' L 4 ?e ST_IDLE)
      \<and> bus_lines d2p D' = lv True" if "run_ok L k" "k \<noteq> 6" for D L k
  proof -
    let ?D = "driven D d2p 0 True"
    have se0: "drive_run 1 d2p (tx c D L 1 ?e ST_SEND) = Inr ([se0], tx c ?D L 1 ?e ST_EOP)"
      using tx_se0 [OF assms(1) that] assms(4) by simp
    obtain D2 where "drive_run 3 d2p (tx c ?D L 1 ?e ST_EOP) = Inr ([se0, lv True, lv True], tx c D2 L 4 ?e ST_IDLE)"
      "bus_lines d2p D2 = lv True"
      using tx_eop [OF assms(1,2), of ?D L ?e] e by auto
    with drive_run_append [OF se0 this(1)] show ?thesis by auto
  qed
  show ?thesis
  proof (cases "?k = 6")
    case False
    obtain D2 where 2: "drive_run 4 d2p (tx c D1 L1 1 ?e ST_SEND) =
        Inr ([se0, se0, lv True, lv True], tx c D2 L1 4 ?e ST_IDLE)" "bus_lines d2p D2 = lv True"
      using eop [OF 1(2) False] by blast
    have "drive_run (length (packet_lines True ds) + 1) d2p (tx c D L 1 N ST_SYNC) =
        Inr (packet_lines True ds @ [lv True], tx c D2 L1 4 ?e ST_IDLE)"
      using drive_run_append [OF 1(1) 2(1)] unfolding packet_lines_True(1) [OF False] packet_lines_tail by simp
    then show ?thesis using 2(2) by blast
  next
    case True
    have "c_sending c \<noteq> None" using assms(1) by (simp add: tx_ok_def)
    then obtain D2 where 2: "host_drive (tx c D1 L1 1 ?e ST_SEND) d2p =
        Inr (True, tx c D2 (shift_in L1 False) 1 ?e ST_SEND)" "bus_lines d2p D2 = lv (\<not> ?p)"
      using tx_stuffed [OF _ _ 1(3)] 1(2) True by metis
    have "run_ok (shift_in L1 False) 0" using run_ok_shift [OF 1(2), of False] by simp
    then obtain D3 where 3: "drive_run 4 d2p (tx c D2 (shift_in L1 False) 1 ?e ST_SEND) =
        Inr ([se0, se0, lv True, lv True], tx c D3 (shift_in L1 False) 4 ?e ST_IDLE)" "bus_lines d2p D3 = lv True"
      using eop [of "shift_in L1 False" 0] by auto
    have "drive_run 1 d2p (tx c D1 L1 1 ?e ST_SEND) = Inr ([lv (\<not> ?p)], tx c D2 (shift_in L1 False) 1 ?e ST_SEND)"
      using 2 by simp
    from drive_run_append [OF 1(1) drive_run_append [OF this 3(1)]]
    have "drive_run (length (packet_lines True ds) + 1) d2p (tx c D L 1 N ST_SYNC) =
        Inr (packet_lines True ds @ [lv True], tx c D3 (shift_in L1 False) 4 ?e ST_IDLE)"
      using packet_lines_True(2) [OF True] by (simp only:)
    then show ?thesis using 3(2) by blast
  qed
qed

end
