(* ===== verification/Pool_Refine.thy ===== *)
theory Pool_Refine
  imports Pool
begin

text \<open>
  What the pool of descriptors and the streams' queues promise, and that the linked lists
  of \<open>usb_transfer.c\<close> and \<open>usbdpi_stream.c\<close> keep it.  The abstract state has a stack of free
  descriptors and a first-in first-out queue per stream; \<open>pool_abs\<close> reads it off the model's
  state by following the links, at most \<open>USBDPI_MAX_TRANSFERS\<close> of them.  The locale
  \<open>descriptor_pool\<close> is the interface of the pool as the code that allocates sees it.
\<close>

section \<open>The abstract state\<close>

record pool_spec =
  p_free :: "nat list"
  p_queues :: "nat list list"

fun chain :: "nat \<Rightarrow> transfer list \<Rightarrow> nat option \<Rightarrow> nat list" where
  "chain 0 pool p = []"
| "chain (Suc n) pool p = (case p of None \<Rightarrow> [] | Some i \<Rightarrow> i # chain n pool (t_next (pool ! i)))"

definition free_list :: "ctx \<Rightarrow> nat list" where
  "free_list c = chain USBDPI_MAX_TRANSFERS (c_pool c) (c_free c)"

definition pool_abs :: "ctx \<Rightarrow> pool_spec" where
  "pool_abs c = \<lparr>p_free = free_list c,
     p_queues = map (chain USBDPI_MAX_TRANSFERS (c_pool c)) (stream_queues (c_stream c))\<rparr>"

fun spec_alloc :: "pool_spec \<Rightarrow> nat option \<times> pool_spec" where
  "spec_alloc s = (case p_free s of [] \<Rightarrow> (None, s) | i # is \<Rightarrow> (Some i, s\<lparr>p_free := is\<rparr>))"

definition spec_release :: "nat \<Rightarrow> pool_spec \<Rightarrow> pool_spec" where
  "spec_release i s = s\<lparr>p_free := i # p_free s\<rparr>"

definition spec_append :: "nat \<Rightarrow> nat \<Rightarrow> pool_spec \<Rightarrow> pool_spec" where
  "spec_append k i s = s\<lparr>p_queues := (p_queues s)[k := p_queues s ! k @ [i]]\<rparr>"

definition spec_retire :: "nat \<Rightarrow> pool_spec \<Rightarrow> pool_spec" where
  "spec_retire k s =
     \<lparr>p_free = hd (p_queues s ! k) # p_free s, p_queues = (p_queues s)[k := tl (p_queues s ! k)]\<rparr>"

definition spec_discard :: "nat \<Rightarrow> pool_spec \<Rightarrow> pool_spec" where
  "spec_discard k s =
     \<lparr>p_free = rev (p_queues s ! k) @ p_free s, p_queues = (p_queues s)[k := []]\<rparr>"

declare chain.simps [simp del]

lemma chain_lseg: "lseg pool p is \<Longrightarrow> length is \<le> n \<Longrightarrow> chain n pool p = is"
proof (induction "is" arbitrary: p n)
  case Nil
  then show ?case by (cases n) (simp_all add: chain.simps)
next
  case (Cons i "is")
  then show ?case by (cases n) (simp_all add: chain.simps)
qed

lemma distinct_segments:
  assumes "distinct (fl @ concat ls)" "l \<in> set ls"
  shows "distinct l"
  using assms by (auto simp: distinct_concat_iff)

text \<open>The lists that the links describe are the abstract state.\<close>

lemma pool_absI:
  assumes "length (c_pool c) = 32" "lseg (c_pool c) (c_free c) fl"
    and "list_all2 (lseg (c_pool c)) (stream_queues (c_stream c)) ls" "distinct (fl @ concat ls)"
  shows "pool_abs c = \<lparr>p_free = fl, p_queues = ls\<rparr>"
proof -
  have "length fl \<le> 32"
    using lseg_length [OF assms(2)] assms(1,4) by simp
  then have 1: "free_list c = fl"
    using assms(2) by (simp add: free_list_def chain_lseg)
  have "chain 32 (c_pool c) (stream_queues (c_stream c) ! k) = ls ! k"
    if k: "k < length (c_stream c)" for k
  proof -
    have l: "lseg (c_pool c) (stream_queues (c_stream c) ! k) (ls ! k)" "k < length ls"
      using list_all2_nthD [OF assms(3), of k] list_all2_lengthD [OF assms(3)] k by simp_all
    then have "length (ls ! k) \<le> 32"
      using lseg_length [OF l(1)] distinct_segments [OF assms(4) nth_mem [OF l(2)]] assms(1) by simp
    with l(1) show ?thesis by (rule chain_lseg)
  qed
  then have "map (chain 32 (c_pool c)) (stream_queues (c_stream c)) = ls"
    using list_all2_lengthD [OF assms(3)] by (intro nth_equalityI) simp_all
  with 1 show ?thesis by (simp add: pool_abs_def)
qed

lemma owns_absE:
  assumes "owns c H"
  obtains fl ls where "pool_abs c = \<lparr>p_free = fl, p_queues = ls\<rparr>" "length (c_pool c) = 32"
    "lseg (c_pool c) (c_free c) fl" "list_all2 (lseg (c_pool c)) (stream_queues (c_stream c)) ls"
    "distinct (fl @ concat ls)" "H \<inter> set (fl @ concat ls) = {}" "H \<subseteq> {..<32}"
proof -
  obtain fl ls where 1: "length (c_pool c) = 32" "list_all wf_transfer (c_pool c)" "H \<subseteq> {..<32}"
    "lseg (c_pool c) (c_free c) fl" "list_all2 (lseg (c_pool c)) (stream_queues (c_stream c)) ls"
    "distinct (fl @ concat ls)" "H \<inter> set (fl @ concat ls) = {}"
    using assms unfolding owns_def by (rule pool_okE)
  from that [OF pool_absI [OF 1(1,4,5,6)]] 1 show thesis by simp
qed

lemma free_list_abs: "free_list c = p_free (pool_abs c)"
  by (simp add: pool_abs_def)

section \<open>Allocation and release\<close>

lemma transfer_alloc_abs:
  assumes "owns c H"
  shows "\<exists>p c'. transfer_alloc c = Inr (p, c') \<and> (p, pool_abs c') = spec_alloc (pool_abs c)
    \<and> owns c' (H \<union> set_option p) \<and> set_option p \<inter> H = {}"
proof -
  obtain fl ls where 1: "pool_abs c = \<lparr>p_free = fl, p_queues = ls\<rparr>" "length (c_pool c) = 32"
    "lseg (c_pool c) (c_free c) fl" "list_all2 (lseg (c_pool c)) (stream_queues (c_stream c)) ls"
    "distinct (fl @ concat ls)" "H \<inter> set (fl @ concat ls) = {}"
    using assms by (rule owns_absE)
  from transfer_alloc_spec [OF assms] show ?thesis
  proof (elim disjE exE conjE)
    assume "c_free c = None" "transfer_alloc c = Inr (None, c)"
    then show ?thesis using 1(1,3) assms by simp
  next
    fix i c' assume 2: "c_free c = Some i" "transfer_alloc c = Inr (Some i, c')" "i < 32" "i \<notin> H"
      "c' = c\<lparr>c_free := t_next (c_pool c ! i), c_pool := (c_pool c)[i := transfer_init (c_pool c ! i)]\<rparr>"
      "owns c' (insert i H)"
    obtain js where fl: "fl = i # js" "lseg (c_pool c) (t_next (c_pool c ! i)) js"
      using 1(3) 2(1) by (auto simp: lseg_Some)
    have "pool_abs c' = \<lparr>p_free = js, p_queues = ls\<rparr>"
      using 1(2,4,5) fl by (intro pool_absI) (auto simp: 2(5) list_all2_lseg_upd)
    then show ?thesis using 1(1) 2 fl(1) by simp
  qed
qed

lemma transfer_release_abs:
  assumes "owns c H" "i \<in> H"
  shows "\<exists>c'. transfer_release c (Some i) = Inr c' \<and> pool_abs c' = spec_release i (pool_abs c)
    \<and> owns c' (H - {i})"
proof -
  obtain fl ls where 1: "pool_abs c = \<lparr>p_free = fl, p_queues = ls\<rparr>" "length (c_pool c) = 32"
    "lseg (c_pool c) (c_free c) fl" "list_all2 (lseg (c_pool c)) (stream_queues (c_stream c)) ls"
    "distinct (fl @ concat ls)" "H \<inter> set (fl @ concat ls) = {}" "H \<subseteq> {..<32}"
    using assms(1) by (rule owns_absE)
  let ?c = "c\<lparr>c_pool := (c_pool c)[i := (c_pool c ! i)\<lparr>t_next := c_free c\<rparr>], c_free := Some i\<rparr>"
  have i: "i < length (c_pool c)" "i \<notin> set fl" "i \<notin> set (concat ls)" using 1(2,6,7) assms(2) by auto
  then have "pool_abs ?c = \<lparr>p_free = i # fl, p_queues = ls\<rparr>"
    using 1(2-5) by (intro pool_absI) (auto simp: list_all2_lseg_upd)
  then show ?thesis
    using owns_release [OF assms] 1(1) transfer_release_eq [OF i(1)] by (simp add: spec_release_def)
qed

section \<open>The queues\<close>

lemma owns_queueE:
  assumes "owns c H" "k < length (c_stream c)"
  obtains fl la l lb qa qb where
    "pool_abs c = \<lparr>p_free = fl, p_queues = la @ l # lb\<rparr>" "length (c_pool c) = 32"
    "stream_queues (c_stream c) = qa @ s_received (c_stream c ! k) # qb" "length qa = k" "length la = k"
    "lseg (c_pool c) (c_free c) fl" "list_all2 (lseg (c_pool c)) qa la"
    "lseg (c_pool c) (s_received (c_stream c ! k)) l" "list_all2 (lseg (c_pool c)) qb lb"
    "distinct (fl @ concat la @ l @ concat lb)" "H \<inter> set (fl @ concat la @ l @ concat lb) = {}"
    "H \<subseteq> {..<32}"
proof -
  obtain fl ls where 1: "pool_abs c = \<lparr>p_free = fl, p_queues = ls\<rparr>" "length (c_pool c) = 32"
    "lseg (c_pool c) (c_free c) fl" "list_all2 (lseg (c_pool c)) (stream_queues (c_stream c)) ls"
    "distinct (fl @ concat ls)" "H \<inter> set (fl @ concat ls) = {}" "H \<subseteq> {..<32}"
    using assms(1) by (rule owns_absE)
  have k: "k < length (stream_queues (c_stream c))" using assms(2) by simp
  obtain qa qb la lb where 2: "stream_queues (c_stream c) = qa @ stream_queues (c_stream c) ! k # qb"
    "ls = la @ ls ! k # lb" "length qa = k" "length la = k"
    "list_all2 (lseg (c_pool c)) qa la" "list_all2 (lseg (c_pool c)) qb lb"
    "lseg (c_pool c) (stream_queues (c_stream c) ! k) (ls ! k)"
    using 1(4) k by (rule list_all2_nthE)
  obtain l where l: "l = ls ! k" by simp
  have lk: "lseg (c_pool c) (s_received (c_stream c ! k)) l" using 2(7) assms(2) l by simp
  have ls: "ls = la @ l # lb" using 2(2) l by simp
  from that [of fl la l lb qa qb] show thesis
    using lk 1 2(1,3-6) assms(2) unfolding ls by simp
qed

lemma pool_abs_queueI:
  assumes "length (c_pool c) = 32" "lseg (c_pool c) (c_free c) fl"
    and "stream_queues (c_stream c) = qa @ q # qb" "list_all2 (lseg (c_pool c)) qa la"
    and "lseg (c_pool c) q l" "list_all2 (lseg (c_pool c)) qb lb"
    and "distinct (fl @ concat la @ l @ concat lb)"
  shows "pool_abs c = \<lparr>p_free = fl, p_queues = la @ l # lb\<rparr>"
  using assms by (intro pool_absI) (auto intro: list_all2_appendI)

lemma stream_queues_upd:
  "k < length ss \<Longrightarrow> stream_queues ss = qa @ q # qb \<Longrightarrow> length qa = k \<Longrightarrow>
   stream_queues (ss[k := s]) = qa @ s_received s # qb"
  by (simp add: map_update list_update_append)

lemma queue_append_abs:
  assumes "owns c H" "k < length (c_stream c)" "i \<in> H" "t_next (c_pool c ! i) = None"
  shows "\<exists>c'. queue_append c k (Some i) = Inr c' \<and> pool_abs c' = spec_append k i (pool_abs c)
    \<and> owns c' (H - {i})"
proof -
  obtain fl la l lb qa qb where 1: "pool_abs c = \<lparr>p_free = fl, p_queues = la @ l # lb\<rparr>"
    "length (c_pool c) = 32"
    "stream_queues (c_stream c) = qa @ s_received (c_stream c ! k) # qb" "length qa = k" "length la = k"
    "lseg (c_pool c) (c_free c) fl" "list_all2 (lseg (c_pool c)) qa la"
    "lseg (c_pool c) (s_received (c_stream c ! k)) l" "list_all2 (lseg (c_pool c)) qb lb"
    "distinct (fl @ concat la @ l @ concat lb)" "H \<inter> set (fl @ concat la @ l @ concat lb) = {}"
    "H \<subseteq> {..<32}"
    using assms(1,2) by (rule owns_queueE)
  have i: "i < length (c_pool c)" "i \<notin> set (fl @ concat la @ l @ concat lb)"
    using 1(2,11,12) assms(3) by auto
  have owns: "\<exists>c'. queue_append c k (Some i) = Inr c' \<and> owns c' (H - {i})"
    using queue_append_spec [OF assms] by blast
  have "\<exists>c'. queue_append c k (Some i) = Inr c' \<and> pool_abs c' = \<lparr>p_free = fl, p_queues = la @ (l @ [i]) # lb\<rparr>"
  proof (cases "s_received (c_stream c ! k)")
    case None
    let ?c = "upd_stream c k (\<lambda>s. s\<lparr>s_received := Some i\<rparr>)"
    have "pool_abs ?c = \<lparr>p_free = fl, p_queues = la @ [i] # lb\<rparr>"
      using 1 i assms(2,4) None
      by (intro pool_abs_queueI [where qa = qa and qb = qb and q = "Some i"])
        (auto simp: upd_stream_def stream_queues_upd [OF assms(2) 1(3)])
    then show ?thesis using None 1(8) assms(2) by (simp add: queue_append_def)
  next
    case (Some h)
    then obtain js j where l: "l = js @ [j]" using 1(8) by (cases l rule: rev_cases) auto
    have lh: "lseg (c_pool c) (Some h) (js @ [j])" using 1(8) l Some by simp
    have d: "distinct (js @ [j])" using 1(10) l by auto
    then have "length js \<le> 32" using lseg_length [OF lh] 1(2) by simp
    then have "queue_last 32 c h = Inr j" by (rule queue_last_lseg [OF lh])
    moreover have j: "j < length (c_pool c)" using lseg_bounds [OF lh] by simp
    ultimately have eq: "queue_append c k (Some i) =
        Inr (c\<lparr>c_pool := (c_pool c)[j := (c_pool c ! j)\<lparr>t_next := Some i\<rparr>]\<rparr>)"
      using Some assms(2) by (simp add: queue_append_def upd_tr_Some)
    have "lseg ((c_pool c)[j := (c_pool c ! j)\<lparr>t_next := Some i\<rparr>]) (Some h) (js @ [j, i])"
      using lh d i l assms(4) by (intro lseg_link) auto
    then have "pool_abs (c\<lparr>c_pool := (c_pool c)[j := (c_pool c ! j)\<lparr>t_next := Some i\<rparr>]\<rparr>)
        = \<lparr>p_free = fl, p_queues = la @ (l @ [i]) # lb\<rparr>"
      using 1 i l Some
      by (intro pool_abs_queueI [where qa = qa and qb = qb and q = "Some h"])
        (auto simp: list_all2_lseg_upd)
    with eq show ?thesis by simp
  qed
  with owns show ?thesis using 1(1,5) by (auto simp: spec_append_def list_update_append)
qed

text \<open>The head of a queue goes back to the free list.\<close>

lemma retire_abs:
  assumes "owns c H" "k < length (c_stream c)" "s_received (c_stream c ! k) = Some i"
  shows "\<exists>c'. transfer_release (upd_stream c k (\<lambda>s. s\<lparr>s_received := t_next (c_pool c ! i)\<rparr>)) (Some i) = Inr c'
    \<and> pool_abs c' = spec_retire k (pool_abs c) \<and> owns c' H
    \<and> c_stream c' = (c_stream c)[k := (c_stream c ! k)\<lparr>s_received := t_next (c_pool c ! i)\<rparr>]"
proof -
  obtain fl la l lb qa qb where 1: "pool_abs c = \<lparr>p_free = fl, p_queues = la @ l # lb\<rparr>"
    "length (c_pool c) = 32"
    "stream_queues (c_stream c) = qa @ s_received (c_stream c ! k) # qb" "length qa = k" "length la = k"
    "lseg (c_pool c) (c_free c) fl" "list_all2 (lseg (c_pool c)) qa la"
    "lseg (c_pool c) (s_received (c_stream c ! k)) l" "list_all2 (lseg (c_pool c)) qb lb"
    "distinct (fl @ concat la @ l @ concat lb)" "H \<inter> set (fl @ concat la @ l @ concat lb) = {}"
    "H \<subseteq> {..<32}"
    using assms(1,2) by (rule owns_queueE)
  obtain js where l: "l = i # js" "i < length (c_pool c)" "lseg (c_pool c) (t_next (c_pool c ! i)) js"
    using 1(8) assms(3) by (auto simp: lseg_Some)
  define c1 where "c1 = upd_stream c k (\<lambda>s. s\<lparr>s_received := t_next (c_pool c ! i)\<rparr>)"
  define c2 where
    "c2 = c1\<lparr>c_pool := (c_pool c1)[i := (c_pool c1 ! i)\<lparr>t_next := c_free c1\<rparr>], c_free := Some i\<rparr>"
  have 2: "i \<notin> H" "owns c1 (insert i H)"
    using owns_pop [OF assms] by (simp_all add: c1_def)
  have "owns c2 (insert i H - {i})"
    unfolding c2_def using 2(2) by (rule owns_release) simp
  then have o: "owns c2 H" using 2(1) by simp
  have rel: "transfer_release c1 (Some i) = Inr c2"
    using l(2) by (simp add: c1_def c2_def transfer_release_eq)
  have q: "stream_queues (c_stream c2) = qa @ t_next (c_pool c ! i) # qb"
    using stream_queues_upd [OF assms(2) 1(3,4)] by (simp add: c2_def c1_def upd_stream_def)
  have "pool_abs c2 = \<lparr>p_free = i # fl, p_queues = la @ js # lb\<rparr>"
    using 1 l q
    by (intro pool_abs_queueI [where qa = qa and qb = qb and q = "t_next (c_pool c ! i)"])
      (auto simp: c2_def c1_def list_all2_lseg_upd)
  then have "pool_abs c2 = spec_retire k (pool_abs c)"
    using 1(1,5) l(1) by (simp add: spec_retire_def nth_append list_update_append)
  moreover have "c_stream c2 = (c_stream c)[k := (c_stream c ! k)\<lparr>s_received := t_next (c_pool c ! i)\<rparr>]"
    by (simp add: c2_def c1_def upd_stream_def)
  ultimately show ?thesis using rel o by (simp add: c1_def)
qed

lemma queue_head_abs:
  assumes "owns c H" "k < length (c_stream c)"
  shows "k < length (p_queues (pool_abs c)) \<and> length (p_queues (pool_abs c) ! k) \<le> 32 \<and>
    s_received (c_stream c ! k) =
      (case p_queues (pool_abs c) ! k of [] \<Rightarrow> None | i # _ \<Rightarrow> Some i)"
proof -
  obtain fl la l lb qa qb where 1: "pool_abs c = \<lparr>p_free = fl, p_queues = la @ l # lb\<rparr>"
    "length (c_pool c) = 32"
    "stream_queues (c_stream c) = qa @ s_received (c_stream c ! k) # qb" "length qa = k" "length la = k"
    "lseg (c_pool c) (c_free c) fl" "list_all2 (lseg (c_pool c)) qa la"
    "lseg (c_pool c) (s_received (c_stream c ! k)) l" "list_all2 (lseg (c_pool c)) qb lb"
    "distinct (fl @ concat la @ l @ concat lb)" "H \<inter> set (fl @ concat la @ l @ concat lb) = {}"
    "H \<subseteq> {..<32}"
    using assms by (rule owns_queueE)
  have "length l \<le> 32" using lseg_length [OF 1(8)] 1(2,10) by simp
  moreover have "s_received (c_stream c ! k) = (case l of [] \<Rightarrow> None | i # _ \<Rightarrow> Some i)"
    using 1(8) by (cases l) auto
  ultimately show ?thesis using 1(1,5) by (simp add: nth_append)
qed

lemma spec_discard_Nil: "p_queues s ! k = [] \<Longrightarrow> spec_discard k s = s"
  using list_update_id [of "p_queues s" k] by (cases s) (simp add: spec_discard_def)

lemma spec_discard_Cons:
  "k < length (p_queues s) \<Longrightarrow> p_queues s ! k = i # is \<Longrightarrow>
   spec_discard k s = spec_discard k (spec_retire k s)"
  by (simp add: spec_discard_def spec_retire_def)

lemma discard_received_abs:
  assumes "owns c H" "k < length (c_stream c)" "length (p_queues (pool_abs c) ! k) \<le> n"
  shows "\<exists>c'. discard_received n c k = Inr c' \<and> pool_abs c' = spec_discard k (pool_abs c) \<and> owns c' H"
  using assms
proof (induction n arbitrary: c)
  case 0
  then show ?case
    using queue_head_abs [OF 0(1,2)] by (simp add: discard_received.simps spec_discard_Nil)
next
  case (Suc n)
  note hd = queue_head_abs [OF Suc.prems(1,2)]
  show ?case
  proof (cases "p_queues (pool_abs c) ! k")
    case Nil
    then show ?thesis using hd Suc.prems by (simp add: discard_received.simps spec_discard_Nil)
  next
    case (Cons i js)
    then have i: "s_received (c_stream c ! k) = Some i" using hd by simp
    have len: "i < length (c_pool c)"
      using owns_pop [OF Suc.prems(1,2) i] owns_length [OF Suc.prems(1)] by simp
    obtain c' where 1: "transfer_release (upd_stream c k (\<lambda>s. s\<lparr>s_received := t_next (c_pool c ! i)\<rparr>))
        (Some i) = Inr c'" "pool_abs c' = spec_retire k (pool_abs c)" "owns c' H"
      "length (c_stream c') = length (c_stream c)"
      using retire_abs [OF Suc.prems(1,2) i] by auto
    have "length (p_queues (pool_abs c') ! k) \<le> n"
      using Cons hd Suc.prems(3) by (simp add: 1(2) spec_retire_def)
    then obtain c'' where 2: "discard_received n c' k = Inr c''"
      "pool_abs c'' = spec_discard k (pool_abs c')" "owns c'' H"
      using Suc.IH [OF 1(3)] 1(4) Suc.prems(2) by auto
    have "discard_received (Suc n) c k = Inr c''"
      using i len 1(1) 2(1) Suc.prems(2) by (simp add: discard_received.simps [of "Suc n"] get_tr_Some)
    then show ?thesis
      using 2 1(2) spec_discard_Cons [of k "pool_abs c" i js] Cons hd by simp
  qed
qed

section \<open>The interface of the pool\<close>

text \<open>
  The contract that the code which allocates and releases relies on: allocation takes the
  first free descriptor, which nobody holds, and fails only when none is free; release puts
  a held descriptor in front.
\<close>

fun allocs :: "('s \<Rightarrow> (nat option \<times> 's) res) \<Rightarrow> nat \<Rightarrow> 's \<Rightarrow> (nat option list \<times> 's) res" where
  "allocs alloc 0 s = Inr ([], s)"
| "allocs alloc (Suc n) s =
     bnd (alloc s) (\<lambda>(p, s). bnd (allocs alloc n s) (\<lambda>(ps, s). Inr (p # ps, s)))"

locale descriptor_pool =
  fixes alloc :: "'s \<Rightarrow> (nat option \<times> 's) res"
    and release :: "'s \<Rightarrow> nat option \<Rightarrow> 's res"
    and frees :: "'s \<Rightarrow> nat list"
    and holds :: "'s \<Rightarrow> nat set \<Rightarrow> bool"
  assumes alloc_none: "holds s H \<Longrightarrow> frees s = [] \<Longrightarrow> \<exists>s'. alloc s = Inr (None, s') \<and> frees s' = [] \<and> holds s' H"
    and alloc_some: "holds s H \<Longrightarrow> frees s = i # is \<Longrightarrow>
      \<exists>s'. alloc s = Inr (Some i, s') \<and> frees s' = is \<and> holds s' (insert i H) \<and> i \<notin> H"
    and release_held: "holds s H \<Longrightarrow> i \<in> H \<Longrightarrow>
      \<exists>s'. release s (Some i) = Inr s' \<and> frees s' = i # frees s \<and> holds s' (H - {i})"
    and frees_distinct: "holds s H \<Longrightarrow> distinct (frees s)"
begin

text \<open>A run of allocations hands out the free descriptors in order and then only \<open>NULL\<close>.\<close>

lemma allocs_frees:
  "holds s H \<Longrightarrow> \<exists>s'. allocs alloc n s =
      Inr (map Some (take n (frees s)) @ replicate (n - length (frees s)) None, s')
    \<and> frees s' = drop n (frees s) \<and> holds s' (H \<union> set (take n (frees s)))"
proof (induction n arbitrary: s H)
  case 0
  then show ?case by simp
next
  case (Suc n)
  show ?case
  proof (cases "frees s")
    case Nil
    obtain s' where 1: "alloc s = Inr (None, s')" "frees s' = []" "holds s' H"
      using alloc_none [OF Suc.prems Nil] by blast
    from Suc.IH [OF 1(3)] 1 Nil show ?thesis by auto
  next
    case (Cons i "is")
    obtain s' where 1: "alloc s = Inr (Some i, s')" "frees s' = is" "holds s' (insert i H)"
      using alloc_some [OF Suc.prems Cons] by blast
    from Suc.IH [OF 1(3)] 1 Cons show ?thesis by auto
  qed
qed

text \<open>No run of allocations hands out a descriptor twice, or one that is held.\<close>

lemma allocs_distinct:
  assumes "holds s H" "allocs alloc n s = Inr (ps, s')"
  shows "distinct (List.map_filter (\<lambda>p. p) ps)"
proof -
  have "ps = map Some (take n (frees s)) @ replicate (n - length (frees s)) None"
    using allocs_frees [OF assms(1), of n] assms(2) by auto
  moreover have "List.map_filter (\<lambda>p. p) (map Some xs @ replicate m None) = xs" for xs :: "nat list" and m
    by (induction xs; induction m) (auto simp: List.map_filter_def)
  ultimately show ?thesis using frees_distinct [OF assms(1)] by simp
qed

lemma release_alloc:
  assumes "holds s H" "i \<in> H"
  shows "\<exists>s'. bnd (release s (Some i)) alloc = Inr (Some i, s') \<and> frees s' = frees s \<and> holds s' H"
proof -
  obtain s1 where 1: "release s (Some i) = Inr s1" "frees s1 = i # frees s" "holds s1 (H - {i})"
    using release_held [OF assms] by blast
  obtain s2 where "alloc s1 = Inr (Some i, s2)" "frees s2 = frees s" "holds s2 (insert i (H - {i}))"
    using alloc_some [OF 1(3,2)] by blast
  then show ?thesis using 1(1) assms(2) by (simp add: insert_absorb)
qed

end

lemma owns_free_distinct: "owns c H \<Longrightarrow> distinct (free_list c)"
  by (erule owns_absE) (simp add: free_list_abs)

interpretation pool: descriptor_pool transfer_alloc transfer_release free_list owns
proof
  fix c H
  assume "owns c H" "free_list c = []"
  with transfer_alloc_abs [OF this(1)]
  show "\<exists>c'. transfer_alloc c = Inr (None, c') \<and> free_list c' = [] \<and> owns c' H"
    by (auto simp: free_list_abs)
next
  fix c H i "is"
  assume "owns c H" "free_list c = i # is"
  with transfer_alloc_abs [OF this(1)]
  show "\<exists>c'. transfer_alloc c = Inr (Some i, c') \<and> free_list c' = is \<and> owns c' (insert i H) \<and> i \<notin> H"
    by (auto simp: free_list_abs)
next
  fix c H i
  assume "owns c H" "i \<in> H"
  from transfer_release_abs [OF this]
  show "\<exists>c'. transfer_release c (Some i) = Inr c' \<and> free_list c' = i # free_list c \<and> owns c' (H - {i})"
    by (auto simp: free_list_abs spec_release_def)
qed (rule owns_free_distinct)

section \<open>The pool after creation\<close>

lemma create_owns_abs:
  "owns (usbdpi_create loglevel opened) {}
   \<and> pool_abs (usbdpi_create loglevel opened) = \<lparr>p_free = [0..<32], p_queues = replicate 15 []\<rparr>"
proof -
  let ?c = "bus_reset zero_ctx\<lparr>c_loglevel := loglevel, c_mon := usb_monitor_init opened\<rparr>"
  have "length (c_pool ?c) = 32" "list_all wf_transfer (c_pool ?c)"
    and q: "c_stream ?c = replicate 15 zero_stream"
    by (simp_all add: bus_reset_def zero_ctx_def list_all_length)
  moreover from q have "list_all (\<lambda>s. s_received s = None) (c_stream ?c)"
    by (simp add: list_all_length zero_stream_def)
  ultimately obtain p f where 1: "usb_transfer_setup ?c = ?c\<lparr>c_pool := p, c_free := f\<rparr>"
    "lseg p f [0..<32]" "owns (?c\<lparr>c_pool := p, c_free := f\<rparr>) {}"
    using usb_transfer_setup_spec [of ?c] by metis
  have create: "usbdpi_create loglevel opened = ?c\<lparr>c_pool := p, c_free := f\<rparr>"
    using 1(1) by (simp add: usbdpi_create_def Let_def)
  have "list_all2 (lseg p) (stream_queues (c_stream ?c)) (replicate 15 [])"
    unfolding q by (simp add: list_all2_conv_all_nth zero_stream_def)
  moreover have "length p = 32" using owns_length [OF 1(3)] by simp
  moreover have "distinct ([0..<32] @ concat (replicate 15 []))" by simp
  ultimately have "pool_abs (usbdpi_create loglevel opened) = \<lparr>p_free = [0..<32], p_queues = replicate 15 []\<rparr>"
    using 1(2) unfolding create by (intro pool_absI) simp_all
  with 1(3) create show ?thesis by simp
qed

text \<open>The state after creation and one allocation, for concrete instances.\<close>

lemma create_alloc:
  obtains c where "transfer_alloc (usbdpi_create 0 True) = Inr (Some 0, c)" "owns c {0}"
    "pool_abs c = \<lparr>p_free = [1..<32], p_queues = replicate 15 []\<rparr>" "length (c_stream c) = 15"
    "t_next (c_pool c ! 0) = None"
proof -
  have l: "[0..<32] = 0 # [1..<32 :: nat]" by (simp add: upt_conv_Cons)
  have a: "owns (usbdpi_create 0 True) {}"
    "pool_abs (usbdpi_create 0 True) = \<lparr>p_free = 0 # [1..<32], p_queues = replicate 15 []\<rparr>"
    using create_owns_abs [of 0 True] l by simp_all
  obtain c where 1: "transfer_alloc (usbdpi_create 0 True) = Inr (Some 0, c)" "owns c {0}"
    "pool_abs c = \<lparr>p_free = [1..<32], p_queues = replicate 15 []\<rparr>"
    using transfer_alloc_abs [OF a(1)] a(2) by auto
  have "length (p_queues (pool_abs c)) = 15" unfolding 1(3) by simp
  then have "length (c_stream c) = 15" by (simp add: pool_abs_def)
  moreover have "t_next (c_pool c ! 0) = None"
    using transfer_alloc_spec [OF a(1)] 1(1) owns_length [OF a(1)] by auto
  ultimately show thesis using that 1 by blast
qed

section \<open>Properties\<close>

text \<open>
  C12: a model that has just been created hands out exactly \<open>USBDPI_MAX_TRANSFERS\<close> different
  descriptors, in the order of the array, and \<open>NULL\<close> from then on.
\<close>

theorem pool_capacity:
  "\<exists>c. allocs transfer_alloc (USBDPI_MAX_TRANSFERS + n) (usbdpi_create loglevel opened)
     = Inr (map Some [0..<USBDPI_MAX_TRANSFERS] @ replicate n None, c)"
proof -
  have "owns (usbdpi_create loglevel opened) {}" "free_list (usbdpi_create loglevel opened) = [0..<32]"
    using create_owns_abs [of loglevel opened] by (simp_all add: free_list_abs)
  from pool.allocs_frees [OF this(1), of "32 + n"] this(2) show ?thesis by auto
qed

text \<open>
  C13: \<open>transfer_alloc\<close> refines popping the stack of free descriptors: it fails only when the
  stack is empty, hands out a descriptor that nobody holds, and leaves the queues alone.
\<close>

theorem transfer_alloc_refines:
  assumes "owns c H"
  shows "\<exists>p c'. transfer_alloc c = Inr (p, c') \<and> (p, pool_abs c') = spec_alloc (pool_abs c)
    \<and> owns c' (H \<union> set_option p) \<and> set_option p \<inter> H = {}"
  using assms by (rule transfer_alloc_abs)

theorem transfer_alloc_refines_witness:
  "\<exists>p c'. transfer_alloc (usbdpi_create 0 True) = Inr (p, c')
    \<and> (p, pool_abs c') = spec_alloc (pool_abs (usbdpi_create 0 True))
    \<and> owns c' ({} \<union> set_option p) \<and> set_option p \<inter> {} = {}"
  using create_owns_abs by (intro transfer_alloc_refines) blast

text \<open>
  C14: \<open>transfer_release\<close> refines pushing on the stack of free descriptors, so that the next
  allocation returns the descriptor just released and the pool is as before.
\<close>

theorem transfer_release_refines:
  assumes "owns c H" "i \<in> H"
  shows "\<exists>c1. transfer_release c (Some i) = Inr c1 \<and> pool_abs c1 = spec_release i (pool_abs c)
    \<and> owns c1 (H - {i})
    \<and> (\<exists>c2. transfer_alloc c1 = Inr (Some i, c2) \<and> pool_abs c2 = pool_abs c \<and> owns c2 H)"
proof -
  obtain c1 where 1: "transfer_release c (Some i) = Inr c1" "pool_abs c1 = spec_release i (pool_abs c)"
    "owns c1 (H - {i})"
    using transfer_release_abs [OF assms] by blast
  from transfer_alloc_abs [OF 1(3)] assms(2) have
    "\<exists>c2. transfer_alloc c1 = Inr (Some i, c2) \<and> pool_abs c2 = pool_abs c \<and> owns c2 H"
    by (auto simp: 1(2) spec_release_def insert_absorb)
  with 1 show ?thesis by blast
qed

theorem transfer_release_refines_witness:
  "\<exists>c c1. transfer_alloc (usbdpi_create 0 True) = Inr (Some 0, c)
    \<and> transfer_release c (Some 0) = Inr c1 \<and> pool_abs c1 = spec_release 0 (pool_abs c)"
proof -
  obtain c where "transfer_alloc (usbdpi_create 0 True) = Inr (Some 0, c)" "owns c {0}"
    by (rule create_alloc)
  with transfer_release_refines [of c "{0}" 0] show ?thesis by blast
qed

text \<open>
  C15: storing a received packet refines appending it to the stream's first-in first-out
  queue: the walk to the last packet ends, and neither the other queues nor the free list
  change.
\<close>

theorem queue_append_refines:
  assumes "owns c H" "k < length (c_stream c)" "i \<in> H" "t_next (c_pool c ! i) = None"
  shows "\<exists>c'. queue_append c k (Some i) = Inr c' \<and> pool_abs c' = spec_append k i (pool_abs c)
    \<and> owns c' (H - {i})"
  using assms by (rule queue_append_abs)

theorem queue_append_refines_witness:
  "\<exists>c c'. transfer_alloc (usbdpi_create 0 True) = Inr (Some 0, c) \<and> queue_append c 3 (Some 0) = Inr c'
    \<and> p_queues (pool_abs c') = (replicate 15 [])[3 := [0]]"
proof -
  obtain c where 1: "transfer_alloc (usbdpi_create 0 True) = Inr (Some 0, c)" "owns c {0}"
    "pool_abs c = \<lparr>p_free = [1..<32], p_queues = replicate 15 []\<rparr>" "length (c_stream c) = 15"
    "t_next (c_pool c ! 0) = None"
    by (rule create_alloc)
  with queue_append_refines [of c "{0}" 3 0] show ?thesis by (auto simp: spec_append_def)
qed

text \<open>
  C16: discarding a stream's packets empties its queue and returns every one of them to the
  free list, within the fuel of one round per descriptor of the pool.
\<close>

theorem discard_received_refines:
  assumes "owns c H" "k < length (c_stream c)"
  shows "\<exists>c'. discard_received USBDPI_MAX_TRANSFERS c k = Inr c'
    \<and> pool_abs c' = spec_discard k (pool_abs c) \<and> owns c' H"
  using discard_received_abs [OF assms] queue_head_abs [OF assms] by simp

theorem discard_received_refines_witness:
  "\<exists>c c' c''. transfer_alloc (usbdpi_create 0 True) = Inr (Some 0, c) \<and> queue_append c 3 (Some 0) = Inr c'
    \<and> discard_received USBDPI_MAX_TRANSFERS c' 3 = Inr c''
    \<and> pool_abs c'' = \<lparr>p_free = 0 # [1..<32], p_queues = replicate 15 []\<rparr>"
proof -
  obtain c where 1: "transfer_alloc (usbdpi_create 0 True) = Inr (Some 0, c)" "owns c {0}"
    "pool_abs c = \<lparr>p_free = [1..<32], p_queues = replicate 15 []\<rparr>" "length (c_stream c) = 15"
    "t_next (c_pool c ! 0) = None"
    by (rule create_alloc)
  obtain c' where 2: "queue_append c 3 (Some 0) = Inr c'" "pool_abs c' = spec_append 3 0 (pool_abs c)"
    "owns c' {}"
    using queue_append_abs [of c "{0}" 3 0] 1(2,4,5) by auto
  have "length (p_queues (pool_abs c')) = 15" using 1(3) 2(2) by (simp add: spec_append_def)
  then have "3 < length (c_stream c')" by (simp add: pool_abs_def)
  from discard_received_refines [OF 2(3) this] 1(1,3) 2(1,2)
  show ?thesis by (auto simp: spec_append_def spec_discard_def list_update_same_conv)
qed

end
