(* ===== verification/Lfsr.thy ===== *)
theory Lfsr
  imports Streams
begin

text \<open>
  The LFSR behind the byte streams: \<open>LFSR_ADVANCE\<close> permutes the non-zero bytes in one cycle
  of length 255, so a stream repeats only after 255 bytes and never sticks at zero.  The
  period is computed on the list of the eight bits.
\<close>

section \<open>The register as a list of bits\<close>

fun adv :: "bool list \<Rightarrow> bool list" where
  "adv [a, b, c, d, e, f, g, h] = [(b \<noteq> c) \<noteq> (d \<noteq> h), a, b, c, d, e, f, g]"
| "adv x = x"

fun adv_iter :: "nat \<Rightarrow> bool list \<Rightarrow> bool list" where
  "adv_iter 0 x = x"
| "adv_iter (Suc n) x = adv_iter n (adv x)"

definition lfsr_bits :: "u8 \<Rightarrow> bool list" where
  "lfsr_bits l = [bit l 0, bit l 1, bit l 2, bit l 3, bit l 4, bit l 5, bit l 6, bit l 7]"

lemma adv_iter_numeral: "adv_iter (numeral k) x = adv_iter (pred_numeral k) (adv x)"
  by (simp add: numeral_eq_Suc)

lemma lfsr_bits_inj: "lfsr_bits x = lfsr_bits y \<Longrightarrow> x = y"
proof (rule bit_word_eqI)
  fix n :: nat assume "lfsr_bits x = lfsr_bits y" "n < LENGTH(8)"
  moreover from this(2) have "n \<in> {0, 1, 2, 3, 4, 5, 6, 7}" by auto
  ultimately show "bit x n = bit y n" by (auto simp: lfsr_bits_def)
qed

lemma lfsr_bits_advance: "lfsr_bits (LFSR_ADVANCE l) = adv (lfsr_bits l)"
  unfolding lfsr_bits_def LFSR_ADVANCE_def bit_xor_iff bit_and_iff bit_push_bit_iff bit_drop_bit_eq
  by (auto simp: bit_1_iff)

lemma lfsr_bits_after: "lfsr_bits (lfsr_after n l) = adv_iter n (lfsr_bits l)"
  by (induction n arbitrary: l) (simp_all add: lfsr_bits_advance)

lemma lfsr_advance_inj: "LFSR_ADVANCE x = LFSR_ADVANCE y \<longleftrightarrow> x = y"
proof
  assume "LFSR_ADVANCE x = LFSR_ADVANCE y"
  then have "adv (lfsr_bits x) = adv (lfsr_bits y)" by (simp flip: lfsr_bits_advance)
  then have "lfsr_bits x = lfsr_bits y" by (auto simp: lfsr_bits_def)
  then show "x = y" by (rule lfsr_bits_inj)
qed simp

lemma lfsr_advance_0 [simp]: "LFSR_ADVANCE 0 = 0"
  by (simp add: LFSR_ADVANCE_def)

section \<open>The period\<close>

lemma lfsr_after_add: "lfsr_after (m + n) l = lfsr_after n (lfsr_after m l)"
  by (induction m arbitrary: l) simp_all

lemma lfsr_after_inj: "lfsr_after n x = lfsr_after n y \<longleftrightarrow> x = y"
  by (induction n arbitrary: x y) (simp_all add: lfsr_advance_inj)

lemma lfsr_after_0 [simp]: "lfsr_after n 0 = 0"
  by (induction n) simp_all

lemma lfsr_after_nonzero: "l \<noteq> 0 \<Longrightarrow> lfsr_after n l \<noteq> 0"
  using lfsr_after_inj [of n l 0] by simp

lemma lfsr_one_iff:
  "lfsr_after n 1 = 1 \<longleftrightarrow> adv_iter n (lfsr_bits 1) = lfsr_bits 1"
  by (metis lfsr_bits_after lfsr_bits_inj)

lemma lfsr_one_period:
  "lfsr_after 255 1 = 1" "lfsr_after 85 1 \<noteq> 1" "lfsr_after 51 1 \<noteq> 1" "lfsr_after 15 1 \<noteq> 1"
  unfolding lfsr_one_iff by (simp_all add: lfsr_bits_def adv_iter_numeral)

text \<open>The numbers of steps that lead from 1 back to 1 are the multiples of 255.\<close>

lemma lfsr_one_mult: "lfsr_after d 1 = 1 \<Longrightarrow> lfsr_after (d * k) 1 = 1"
  by (induction k) (simp_all add: lfsr_after_add)

lemma lfsr_one_dvd: "lfsr_after d 1 = 1 \<Longrightarrow> d dvd n \<Longrightarrow> lfsr_after n 1 = 1"
  by (auto simp: dvd_def lfsr_one_mult)

lemma lfsr_one_gcd:
  assumes "lfsr_after m 1 = 1" "lfsr_after n 1 = 1" "m \<noteq> 0"
  shows "lfsr_after (gcd m n) 1 = 1"
proof -
  obtain x y where "m * x = n * y + gcd m n"
    using bezout_nat [OF assms(3), of n] by blast
  moreover have "lfsr_after (m * x) 1 = 1" "lfsr_after (n * y) 1 = 1"
    using assms by (simp_all add: lfsr_one_mult)
  ultimately show ?thesis by (simp add: lfsr_after_add)
qed

lemma divisors_255:
  assumes "d dvd (255 :: nat)" "d \<noteq> 255"
  shows "d dvd 85 \<or> d dvd 51 \<or> d dvd 15"
proof -
  have "\<forall>d \<in> set [0..<256]. d dvd (255 :: nat) \<longrightarrow> d \<noteq> 255 \<longrightarrow> d dvd 85 \<or> d dvd 51 \<or> d dvd 15"
    by code_simp
  moreover have "d < 256" using dvd_imp_le [OF assms(1)] by simp
  ultimately show ?thesis using assms by auto
qed

lemma lfsr_one_order: "lfsr_after n 1 = 1 \<longleftrightarrow> 255 dvd n"
proof
  assume "lfsr_after n 1 = 1"
  then have 1: "lfsr_after (gcd 255 n) 1 = 1" using lfsr_one_gcd [of 255 n] lfsr_one_period(1) by simp
  have "gcd 255 n = 255"
  proof (rule ccontr)
    assume "gcd 255 n \<noteq> 255"
    then have "gcd 255 n dvd 85 \<or> gcd 255 n dvd 51 \<or> gcd 255 n dvd 15"
      by (intro divisors_255) simp_all
    with lfsr_one_dvd [OF 1] lfsr_one_period(2-4) show False by blast
  qed
  then show "255 dvd n" by (metis gcd_dvd2)
qed (rule lfsr_one_dvd [OF lfsr_one_period(1)])

lemma lfsr_one_inj: "inj_on (\<lambda>k. lfsr_after k 1) {..<255}"
proof (rule linorder_inj_onI)
  fix x y :: nat
  assume "x < y" "x \<in> {..<255}" "y \<in> {..<255}"
  show "lfsr_after x 1 \<noteq> lfsr_after y 1"
  proof
    assume "lfsr_after x 1 = lfsr_after y 1"
    moreover have "y = (y - x) + x" using \<open>x < y\<close> by simp
    ultimately have "lfsr_after x 1 = lfsr_after x (lfsr_after (y - x) 1)"
      by (metis lfsr_after_add)
    then have "255 dvd y - x" using lfsr_one_order [of "y - x"] by (simp add: lfsr_after_inj)
    then show False using \<open>x < y\<close> \<open>y \<in> {..<255}\<close> by (auto dest: dvd_imp_le)
  qed
qed auto

lemma lfsr_one_orbit: "(\<lambda>k. lfsr_after k 1) ` {..<255} = UNIV - {0}"
proof (rule card_subset_eq)
  show "finite (UNIV - {0 :: u8})" by simp
  show "(\<lambda>k. lfsr_after k 1) ` {..<255} \<subseteq> UNIV - {0}" by (auto simp: lfsr_after_nonzero)
  have "card (UNIV :: u8 set) = 256" by (simp add: card_word)
  then show "card ((\<lambda>k. lfsr_after k 1) ` {..<255}) = card (UNIV - {0 :: u8})"
    using card_image [OF lfsr_one_inj] by (simp add: card_Diff_singleton)
qed

lemma lfsr_order: "l \<noteq> 0 \<Longrightarrow> lfsr_after n l = l \<longleftrightarrow> 255 dvd n"
proof -
  assume "l \<noteq> 0"
  then obtain k where k: "l = lfsr_after k 1" using lfsr_one_orbit by blast
  have "lfsr_after n l = l \<longleftrightarrow> lfsr_after k (lfsr_after n 1) = lfsr_after k 1"
    unfolding k by (metis add.commute lfsr_after_add)
  then show ?thesis by (simp add: lfsr_after_inj lfsr_one_order)
qed

section \<open>The bytes of a stream\<close>

lemma nth_lfsr_bytes: "k < n \<Longrightarrow> lfsr_bytes n l ! k = lfsr_after k l"
proof (induction n arbitrary: l k)
  case (Suc n)
  then show ?case by (cases k) simp_all
qed simp

lemma lfsr_bytes_add: "lfsr_bytes (m + n) l = lfsr_bytes m l @ lfsr_bytes n (lfsr_after m l)"
  by (induction m arbitrary: l) simp_all

lemma lfsr_seeds_nonzero:
  "s < 15 \<Longrightarrow> USBTST_LFSR_SEED s \<noteq> 0 \<and> USBDPI_LFSR_SEED s \<noteq> 0 \<and> RETRY_LFSR_SEED s \<noteq> 0"
proof -
  assume "s < 15"
  then have "unat s \<in> set [0..<15]" by (simp add: word_less_nat_alt)
  moreover have "\<forall>n \<in> set [0..<15]. USBTST_LFSR_SEED (of_nat n) \<noteq> 0 \<and> USBDPI_LFSR_SEED (of_nat n) \<noteq> 0
      \<and> RETRY_LFSR_SEED (of_nat n) \<noteq> 0"
    by code_simp
  ultimately have "USBTST_LFSR_SEED (of_nat (unat s)) \<noteq> 0 \<and> USBDPI_LFSR_SEED (of_nat (unat s)) \<noteq> 0
      \<and> RETRY_LFSR_SEED (of_nat (unat s)) \<noteq> 0" by blast
  then show ?thesis by simp
qed

section \<open>Properties\<close>

text \<open>
  C20: from every non-zero state the generator of the streams has the full period: its next
  255 bytes are all the non-zero bytes, each once, it returns to the state after exactly
  255 steps or a multiple of that, and it never reaches zero.
\<close>

theorem lfsr_full_period:
  assumes "l \<noteq> 0"
  shows "distinct (lfsr_bytes 255 l) \<and> set (lfsr_bytes 255 l) = UNIV - {0}
    \<and> (lfsr_after n l = l \<longleftrightarrow> 255 dvd n) \<and> lfsr_after n l \<noteq> 0"
proof -
  have inj: "inj_on (\<lambda>k. lfsr_after k l) {..<255}"
  proof -
    obtain m where m: "l = lfsr_after m 1" using assms lfsr_one_orbit by blast
    have "lfsr_after k l = lfsr_after m (lfsr_after k 1)" for k
      unfolding m by (metis add.commute lfsr_after_add)
    then show ?thesis using lfsr_one_inj by (simp add: inj_on_def lfsr_after_inj)
  qed
  have bytes: "lfsr_bytes 255 l = map (\<lambda>k. lfsr_after k l) [0..<255]"
    by (rule nth_equalityI) (simp_all add: nth_lfsr_bytes)
  have d: "distinct (lfsr_bytes 255 l)"
    unfolding bytes distinct_map using inj by (simp add: lessThan_atLeast0 del: upt_conv_Cons upt_Suc)
  moreover have "set (lfsr_bytes 255 l) = UNIV - {0}"
  proof (rule card_subset_eq)
    show "set (lfsr_bytes 255 l) \<subseteq> UNIV - {0}"
      using lfsr_after_nonzero [OF assms] unfolding bytes by auto
    have "card (UNIV :: u8 set) = 256" by (simp add: card_word)
    then show "card (set (lfsr_bytes 255 l)) = card (UNIV - {0 :: u8})"
      using distinct_card [OF d] by (simp add: card_Diff_singleton)
  qed simp
  ultimately show ?thesis using lfsr_order [OF assms] lfsr_after_nonzero [OF assms] by blast
qed

theorem lfsr_full_period_witness:
  "distinct (lfsr_bytes 255 0x9B) \<and> lfsr_after 510 0x9B = 0x9B"
  using lfsr_full_period [of "0x9B" 510] by simp

end
