(* ===== verification/Stream_Data.thy ===== *)
theory Stream_Data
  imports Host_Inv Pool_Refine Lfsr
begin

text \<open>
  What the data routines of \<open>usbdpi_stream.c\<close> compute.  The comparison loop accepts exactly
  the bytes of the generator, the reply's loop is the exclusive or with them, the reply to
  a packet is an OUT transaction with that payload, and the checker accepts a packet exactly
  when its CRC, its toggle and, where checking is on, its bytes are right.
\<close>

section \<open>The loops\<close>

lemma take_drop_Suc: "i < length xs \<Longrightarrow> take (Suc n) (drop i xs) = xs ! i # take n (drop (Suc i) xs)"
  by (simp add: Cons_nth_drop_Suc [symmetric])

lemma stream_check_loop_eq:
  "i + n \<le> length data \<Longrightarrow> stream_check_loop n data i l ok =
     Inr (lfsr_after n l, ok \<and> take n (drop i data) = lfsr_bytes n l)"
proof (induction n arbitrary: i l ok)
  case (Suc n)
  then show ?case using Suc.IH [of "Suc i"] by (auto simp: take_drop_Suc)
qed simp

lemma stream_xor_loop_eq:
  "i + n \<le> length src \<Longrightarrow> j + n \<le> length dst \<Longrightarrow> stream_xor_loop n src i dst j l =
     Inr (take j dst @ map2 (XOR) (take n (drop i src)) (lfsr_bytes n l) @ drop (j + n) dst,
          j + n, lfsr_after n l)"
proof (induction n arbitrary: i j l dst)
  case (Suc n)
  then have j: "j < length dst" by simp
  then have "take (Suc j) (dst[j := src ! i XOR l]) = take j dst @ [src ! i XOR l]"
    by (simp add: take_Suc_conv_app_nth)
  moreover have "drop (Suc (j + n)) (dst[j := src ! i XOR l]) = drop (Suc (j + n)) dst"
    by (simp add: drop_update_cancel)
  ultimately show ?case
    using Suc.prems Suc.IH [of "Suc i" "Suc j" "dst[j := src ! i XOR l]"] j by (simp add: take_drop_Suc)
qed simp

section \<open>The reply to a packet\<close>

text \<open>
  The payload of the reply: the bytes received, each combined with the stream's own
  generator; the signature in front of an Isochronous packet is copied, but for the state of
  the generator.
\<close>

definition reply_payload :: "stream \<Rightarrow> u8 list \<Rightarrow> u8 list" where
  "reply_payload s d =
     (if s_xfr_type s = USB_TRANSFER_TYPE_ISOCHRONOUS
      then (take 16 d)[4 := s_dpi_lfsr s]
             @ map2 (XOR) (drop 16 d) (lfsr_bytes (length d - 16) (s_dpi_lfsr s))
      else map2 (XOR) d (lfsr_bytes (length d) (s_dpi_lfsr s)))"

definition reply_lfsr :: "stream \<Rightarrow> nat \<Rightarrow> u8" where
  "reply_lfsr s n =
     lfsr_after (if s_xfr_type s = USB_TRANSFER_TYPE_ISOCHRONOUS then n - 16 else n) (s_dpi_lfsr s)"

lemma length_reply_payload [simp]:
  "s_xfr_type s = USB_TRANSFER_TYPE_ISOCHRONOUS \<longrightarrow> 16 \<le> length d \<Longrightarrow> length (reply_payload s d) = length d"
  by (auto simp: reply_payload_def)

lemma reply_body_eq:
  assumes "length d = 73" "dp + n \<le> 73" "sp + n \<le> length src" "n \<le> 70"
    and "s_xfr_type s = USB_TRANSFER_TYPE_ISOCHRONOUS \<longrightarrow> 16 \<le> n"
  shows "bnd (if s_xfr_type s = USB_TRANSFER_TYPE_ISOCHRONOUS then
            bnd (cassert ''num_bytes >= SIZEOF_STREAM_SIGNATURE''
                   (unat (of_nat n :: u32) \<ge> SIZEOF_STREAM_SIGNATURE)) (\<lambda>_.
            bnd (arr_read src sp SIZEOF_STREAM_SIGNATURE) (\<lambda>sig.
            bnd (arr_write d dp sig) (\<lambda>d.
            bnd (arr_set d (dp + 4) (s_dpi_lfsr s)) (\<lambda>d.
              Inr (d, dp + SIZEOF_STREAM_SIGNATURE, sp + SIZEOF_STREAM_SIGNATURE,
                   of_nat n - of_nat SIZEOF_STREAM_SIGNATURE :: u32)))))
          else Inr (d, dp, sp, of_nat n)) (\<lambda>(d, dp, sp, num_bytes).
        stream_xor_loop (unat num_bytes) src sp d dp (s_dpi_lfsr s)) =
      bnd (arr_write d dp (reply_payload s (take n (drop sp src)))) (\<lambda>d. Inr (d, dp + n, reply_lfsr s n))"
proof -
  let ?d = "take n (drop sp src)"
  have n: "unat (of_nat n :: u32) = n" using assms(4) by (intro unat_of_nat_small) simp
  have len: "length ?d = n" using assms(3) by simp
  show ?thesis
  proof (cases "s_xfr_type s = USB_TRANSFER_TYPE_ISOCHRONOUS")
    case True
    then have 16: "16 \<le> n" using assms(5) by simp
    have "(16 :: u32) \<le> of_nat n" using 16 n by (simp add: word_le_nat_alt)
    then have sub: "unat (of_nat n - 16 :: u32) = n - 16" using n by (simp add: unat_sub)
    let ?sig = "take 16 (drop sp src)"
    have sig: "length ?sig = 16" "take 16 ?d = ?sig" using 16 assms(3) by (auto simp: min_def)
    let ?w = "take dp d @ ?sig @ drop (dp + 16) d"
    have upd: "?w[dp + 4 := s_dpi_lfsr s] = take dp d @ ?sig[4 := s_dpi_lfsr s] @ drop (dp + 16) d"
      using assms(1,2) 16 sig(1) by (simp add: list_update_append)
    have "stream_xor_loop (n - 16) src (sp + 16) (take dp d @ ?sig[4 := s_dpi_lfsr s] @ drop (dp + 16) d)
        (dp + 16) (s_dpi_lfsr s) =
      Inr (take dp d @ reply_payload s ?d @ drop (dp + n) d, dp + n, reply_lfsr s n)"
      using assms 16 sig True len
      by (subst stream_xor_loop_eq) (simp_all add: reply_payload_def reply_lfsr_def drop_take min_def add.commute)
    then show ?thesis
      using assms 16 sig sub True n upd len by (simp add: reply_payload_def [of s] min_def)
  next
    case False
    then show ?thesis
      using assms n len by (simp add: stream_xor_loop_eq reply_payload_def reply_lfsr_def)
  qed
qed

lemma stream_reply_eq:
  assumes wf: "wf_transfer t" and n0: "t_num_bytes t = 3" and pid: "data_pid pid" and n: "n < 67"
    and "sp + n \<le> length src" "s_xfr_type s = USB_TRANSFER_TYPE_ISOCHRONOUS \<longrightarrow> 16 \<le> n"
  shows "stream_reply s pid (of_nat n) src sp t =
    Inr (t\<lparr>t_data_start := 3, t_num_bytes := of_nat (n + 6),
           t_data := take 3 (t_data t) @ data_packet pid (reply_payload s (take n (drop sp src)))
             @ drop (n + 6) (t_data t)\<rparr>, reply_lfsr s n)"
proof -
  let ?p = "reply_payload s (take n (drop sp src))"
  have len: "length (t_data t) = 73" using wf by (simp add: wf_transfer_def)
  have p: "length ?p = n" using assms(5,6) by simp
  have un: "unat (of_nat n :: u32) = n" using n by (intro unat_of_nat_small) simp
  have pid': "pid = USB_PID_DATA0 \<or> pid = USB_PID_DATA1" using pid by (simp add: data_pid_def)
  have start: "transfer_data_start t pid (of_nat n) = Inr (t\<lparr>t_data_start := 3,
      t_data := (t_data t)[3 := pid], t_num_bytes := 4\<rparr>, Some 4)"
    using transfer_data_start_eq [OF wf pid', of "of_nat n"] n0 n un by simp
  have "data_stage t pid (of_nat n) ?p = Inr (t\<lparr>t_data_start := 3, t_num_bytes := of_nat (n + 6),
      t_data := take 3 (t_data t) @ data_packet pid ?p @ drop (n + 6) (t_data t)\<rparr>)"
  proof -
    have e: "unat (3 :: u8) = 3" "3 + 3 + n = n + 6" by simp_all
    show ?thesis
      by (rule data_stage_eq [OF wf pid', of "of_nat n" ?p, unfolded n0 p un e]) (use n in simp_all)
  qed
  then have "bnd (arr_write ((t_data t)[3 := pid]) 4 ?p) (\<lambda>d.
      transfer_data_end (t\<lparr>t_data_start := 3, t_num_bytes := 4, t_data := d\<rparr>) (4 + n)) = \<dots>"
    using p by (simp add: data_stage_def start)
  moreover have "stream_reply s pid (of_nat n) src sp t =
      bnd (bnd (arr_write ((t_data t)[3 := pid]) 4 ?p) (\<lambda>d.
        transfer_data_end (t\<lparr>t_data_start := 3, t_num_bytes := 4, t_data := d\<rparr>) (4 + n)))
        (\<lambda>t. Inr (t, reply_lfsr s n))"
  proof -
    let ?m = "if s_xfr_type s = USB_TRANSFER_TYPE_ISOCHRONOUS then
            bnd (cassert ''num_bytes >= SIZEOF_STREAM_SIGNATURE''
                   (unat (of_nat n :: u32) \<ge> SIZEOF_STREAM_SIGNATURE)) (\<lambda>_.
            bnd (arr_read src sp SIZEOF_STREAM_SIGNATURE) (\<lambda>sig.
            bnd (arr_write ((t_data t)[3 := pid]) 4 sig) (\<lambda>d.
            bnd (arr_set d (4 + 4) (s_dpi_lfsr s)) (\<lambda>d.
              Inr (d, 4 + SIZEOF_STREAM_SIGNATURE, sp + SIZEOF_STREAM_SIGNATURE,
                   of_nat n - of_nat SIZEOF_STREAM_SIGNATURE :: u32)))))
          else Inr ((t_data t)[3 := pid], 4, sp, of_nat n)"
    have "stream_reply s pid (of_nat n) src sp t =
        bnd (bnd ?m (\<lambda>(d, dp, sp, num_bytes). stream_xor_loop (unat num_bytes) src sp d dp (s_dpi_lfsr s)))
          (\<lambda>(d, dp, l). bnd (transfer_data_end (t\<lparr>t_data_start := 3, t_num_bytes := 4, t_data := d\<rparr>) dp)
            (\<lambda>t. Inr (t, l)))"
      by (simp add: stream_reply_def start bnd_assoc case_prod_beta)
    also have "\<dots> = bnd (bnd (arr_write ((t_data t)[3 := pid]) 4 ?p) (\<lambda>d. Inr (d, 4 + n, reply_lfsr s n)))
          (\<lambda>(d, dp, l). bnd (transfer_data_end (t\<lparr>t_data_start := 3, t_num_bytes := 4, t_data := d\<rparr>) dp)
            (\<lambda>t. Inr (t, l)))"
      using len assms(5,6) n by (subst reply_body_eq) simp_all
    also have "\<dots> = bnd (bnd (arr_write ((t_data t)[3 := pid]) 4 ?p) (\<lambda>d.
        transfer_data_end (t\<lparr>t_data_start := 3, t_num_bytes := 4, t_data := d\<rparr>) (4 + n)))
        (\<lambda>t. Inr (t, reply_lfsr s n))"
      by (simp add: bnd_assoc)
    finally show ?thesis .
  qed
  ultimately show ?thesis by simp
qed

text \<open>The data field of a descriptor that holds just a data packet.\<close>

definition payload :: "transfer \<Rightarrow> u8 list" where
  "payload t = take (unat (t_num_bytes t) - 3) (drop 1 (t_data t))"

definition holds_packet :: "transfer \<Rightarrow> nat \<Rightarrow> bool" where
  "holds_packet t n \<longleftrightarrow> t_data_start t = 0 \<and> unat (t_num_bytes t) = n + 3"

lemma transfer_length_of_nat: "transfer_length t = of_nat (unat (t_num_bytes t))"
  using unat_u8_less [of "t_num_bytes t"]
  by (simp add: transfer_length_def word_unat_eq_iff unat_ucast_up unat_of_nat_small)

lemma holds_packetD:
  assumes "holds_packet t n"
  shows "t_data_start t = 0" "unat (t_num_bytes t) = n + 3" "transfer_data_field t = Some 1"
    "transfer_length t - 3 = of_nat n" "payload t = take n (drop 1 (t_data t))"
  using assms by (simp_all add: holds_packet_def transfer_data_field_def transfer_length_of_nat payload_def)

lemma received_inv:
  assumes "ctx_inv H c" "k < 15" "s_received (c_stream c ! k) = Some i"
  shows "i < 32" "c_free c \<noteq> Some i"
proof -
  have own: "pool_ok (c_pool c) (c_free c) (stream_queues (c_stream c)) H"
    using assms(1) owns_mono [of c "held c \<union> H" H] by (simp add: ctx_inv_def owns_def)
  have q: "k < length (stream_queues (c_stream c))" "stream_queues (c_stream c) ! k = Some i"
    using assms inv_lengths [OF assms(1)] by simp_all
  note pop = pool_ok_pop [OF own q]
  show "i < 32" using pop by simp
  show "c_free c \<noteq> Some i"
    using pop by (auto dest: pool_ok_take)
qed

lemma stream_data_process_eq:
  assumes inv: "ctx_inv H c" and i32: "i < 32" and ij: "i \<noteq> j" and k: "k < 15" and free: "c_free c = Some j"
    and rx: "holds_packet (c_pool c ! i) n" "n < 67"
    and iso: "s_xfr_type (c_stream c ! k) = USB_TRANSFER_TYPE_ISOCHRONOUS \<longrightarrow> 16 \<le> n"
  shows "\<exists>c'. stream_data_process c k (Some i) = Inr (Some j, c')
    \<and> take (unat (t_num_bytes (c_pool c' ! j))) (t_data (c_pool c' ! j)) =
        token_bytes USB_PID_OUT (c_dev_address c) (s_ep_out (c_stream c ! k))
        @ data_packet (c_ep_out c ! unat (s_ep_out (c_stream c ! k)))
            (reply_payload (c_stream c ! k) (payload (c_pool c ! i)))
    \<and> c_stream c' = (c_stream c)[k := (c_stream c ! k)
        \<lparr>s_dpi_rewind_lfsr := s_dpi_lfsr (c_stream c ! k), s_dpi_lfsr := reply_lfsr (c_stream c ! k) n\<rparr>]
    \<and> c_pool c' ! i = c_pool c ! i"
proof -
  let ?s = "c_stream c ! k" and ?t = "c_pool c ! i"
  have own: "owns c (held c \<union> H)" using inv by (simp add: ctx_inv_def)
  have len: "length (c_pool c) = 32" "length (c_ep_out c) = 16" "length (c_stream c) = 15"
    using inv_lengths [OF inv] by simp_all
  have "length (t_data ?t) = 73" using inv_wf [OF inv i32] by (simp add: wf_transfer_def)
  then have src: "1 + n \<le> length (t_data ?t)" using rx(2) by simp
  obtain c1 where a: "transfer_alloc c = Inr (Some j, c1)" "j < 32" "j \<notin> held c \<union> H"
    "c1 = c\<lparr>c_free := t_next (c_pool c ! j), c_pool := (c_pool c)[j := transfer_init (c_pool c ! j)]\<rparr>"
    using transfer_alloc_spec [OF own] free by auto
  have ep: "s_ep_out ?s < 0x10" using inv_stream_ok [OF inv k] by (simp add: stream_ok_def)
  then have ep': "unat (s_ep_out ?s) < 16" by (simp add: word_less_nat_alt)
  have pid: "data_pid (c_ep_out c ! unat (s_ep_out ?s))" using inv_ep_out_pid [OF inv ep'] .
  let ?tok = "(transfer_init (c_pool c ! j))\<lparr>t_next := None, t_num_bytes := 3, t_data_start := 0xff,
      t_data := token_bytes USB_PID_OUT (c_dev_address c) (s_ep_out ?s) @ drop 3 (t_data (c_pool c ! j))\<rparr>"
  have wfj: "wf_transfer (transfer_init (c_pool c ! j))" using inv_wf [OF inv a(2)] by simp
  have tok: "transfer_token (transfer_init (c_pool c ! j)) USB_PID_OUT (c_dev_address c) (s_ep_out ?s) = Inr ?tok"
    using transfer_token_eq [OF wfj inv_dev [OF inv] ep, of USB_PID_OUT] by simp
  have wft: "wf_transfer ?tok" using wfj by (simp add: wf_transfer_def)
  let ?r = "?tok\<lparr>t_data_start := 3, t_num_bytes := of_nat (n + 6),
      t_data := take 3 (t_data ?tok) @ data_packet (c_ep_out c ! unat (s_ep_out ?s)) (reply_payload ?s (payload ?t))
        @ drop (n + 6) (t_data ?tok)\<rparr>"
  have reply: "stream_reply ?s (c_ep_out c ! unat (s_ep_out ?s)) (of_nat n) (t_data ?t) 1 ?tok
      = Inr (?r, reply_lfsr ?s n)"
    using stream_reply_eq [OF wft _ pid rx(2) src iso] holds_packetD(5) [OF rx(1)] by simp
  have "length (payload ?t) = n" using src holds_packetD(5) [OF rx(1)] by simp
  then have lr: "length (reply_payload ?s (payload ?t)) = n" using iso by simp
  have un: "unat (of_nat (n + 6) :: u8) = n + 6" using rx(2) by (intro unat_of_nat_small) simp
  define c' where "c' = c\<lparr>c_free := t_next (c_pool c ! j), c_pool := (c_pool c)[j := ?r],
      c_stream := (c_stream c)[k := ?s\<lparr>s_dpi_rewind_lfsr := s_dpi_lfsr ?s, s_dpi_lfsr := reply_lfsr ?s n\<rparr>]\<rparr>"
  have "stream_data_process c k (Some i) = Inr (Some j, c')"
    using holds_packetD(3,4) [OF rx(1)] i32 a(1,2,4) len k ij ep' tok reply
    by (simp add: stream_data_process_def get_tr_Some upd_tr_Some Let_def upd_stream_def c'_def)
  moreover have "take (unat (t_num_bytes ?r)) (t_data ?r) =
      token_bytes USB_PID_OUT (c_dev_address c) (s_ep_out ?s)
      @ data_packet (c_ep_out c ! unat (s_ep_out ?s)) (reply_payload ?s (payload ?t))"
    using lr by (simp add: un del: of_nat_add)
  ultimately show ?thesis
    using a(2) len ij by (intro exI [of _ c']) (simp add: c'_def)
qed

section \<open>Checking a packet\<close>

lemma crc_bytes_iff:
  "to_u16 (to_u32 lo OR push_bit 8 (to_u32 hi)) = to_u16 (crc :: u32)
     \<longleftrightarrow> lo = to_u8 crc \<and> hi = to_u8 (drop_bit 8 crc)" (is "?w = _ \<longleftrightarrow> _")
proof
  assume eq: "?w = to_u16 crc"
  have b: "bit ?w n = bit (to_u16 crc) n" for n by (simp only: eq)
  have "bit lo n = bit (to_u8 crc) n" if "n < 8" for n
    using b [of n] that by (simp add: bit_simps)
  moreover have "bit hi n = bit (to_u8 (drop_bit 8 crc)) n" if "n < 8" for n
    using b [of "n + 8"] that by (auto simp: bit_simps add.commute dest: bit_imp_le_length)
  ultimately show "lo = to_u8 crc \<and> hi = to_u8 (drop_bit 8 crc)"
    by (auto intro!: bit_word_eqI)
next
  assume "lo = to_u8 crc \<and> hi = to_u8 (drop_bit 8 crc)"
  then show "?w = to_u16 crc"
    by (intro bit_word_eqI) (auto simp: bit_simps)
qed

lemma packet_bytes:
  "n + 3 \<le> length d \<Longrightarrow> take (n + 3) d = d ! 0 # take n (drop 1 d) @ [d ! (n + 1), d ! (n + 2)]"
proof -
  assume n: "n + 3 \<le> length d"
  then obtain x xs where d: "d = x # xs" by (cases d) auto
  have "take (Suc (Suc n)) xs = take n xs @ [xs ! n, xs ! Suc n]"
    using n d by (simp add: take_Suc_conv_app_nth)
  then show ?thesis by (simp add: d eval_nat_numeral)
qed

lemma data_packet_iff:
  "n + 3 \<le> length d \<Longrightarrow> take (n + 3) d = data_packet pid (take n (drop 1 d)) \<longleftrightarrow>
     d ! 0 = pid \<and> to_u16 (to_u32 (d ! (n + 1)) OR push_bit 8 (to_u32 (d ! (n + 2))))
       = to_u16 (crc16_bytes (take n (drop 1 d)))"
  by (simp add: packet_bytes data_packet_def crc_bytes_iff)

lemma sint_of_nat_small: "n < 2 ^ 31 \<Longrightarrow> sint (of_nat n :: u32) = int n"
  by (simp add: sint_uint signed_take_bit_int_eq_self uint_nat unat_of_nat_small)

definition toggle_in :: "ctx \<Rightarrow> nat \<Rightarrow> ctx" where
  "toggle_in c e = c\<lparr>c_ep_in := (c_ep_in c)[e := DATA_TOGGLE_ADVANCE (c_ep_in c ! e)]\<rparr>"

text \<open>
  The checker on a descriptor that holds a packet of \<open>n\<close> bytes, \<open>m\<close> of them already consumed:
  it accepts the packet the device owes and only then advances toggle and generator.
\<close>

lemma stream_data_check_eq:
  assumes inv: "ctx_inv H c" and i: "i < 32" and k: "k < 15"
    and rx: "holds_packet (c_pool c ! i) n" "n < 70" and m: "m \<le> n"
  shows "stream_data_check c k (Some i) (of_nat m) accept =
    (let s = c_stream c ! k; t = c_pool c ! i; e = unat (s_ep_in s);
         good = (drop m (payload t) = lfsr_bytes (n - m) (s_tst_lfsr s)) in
     if accept \<and> take (n + 3) (t_data t) = data_packet (c_ep_in c ! e) (payload t)
     then if \<not> s_checking s then Inr (True, toggle_in c e)
       else if good then Inr (True, upd_stream (toggle_in c e) k
              (\<lambda>s. s\<lparr>s_tst_lfsr := lfsr_after (n - m) (s_tst_lfsr (c_stream c ! k))\<rparr>))
       else Inr (False, toggle_in c e)
     else Inr (False, c))"
proof -
  let ?s = "c_stream c ! k" and ?t = "c_pool c ! i"
  let ?d = "t_data ?t" and ?e = "unat (s_ep_in ?s)"
  have len: "length (c_pool c) = 32" "length (c_stream c) = 15" "length (c_ep_in c) = 16"
    using inv_lengths [OF inv] by simp_all
  have e: "?e < 16" by (rule stream_ep_in [OF inv k])
  have d: "length ?d = 73" using inv_wf [OF inv i] by (simp add: wf_transfer_def)
  have tl: "transfer_length ?t = of_nat (n + 3)" "t_data_start ?t = 0"
    using holds_packetD [OF rx(1)] by (simp_all add: transfer_length_of_nat del: of_nat_add)
  have un: "unat (of_nat j :: u32) = j" if "j < 100" for j
    using that by (intro unat_of_nat_small) simp
  have pre: "\<not> (unat (of_nat (n + 3) :: u32) \<ge> 73 \<or> (1 + 1 + of_nat m :: u32) > of_nat (n + 3))"
  proof -
    have "(1 + 1 + of_nat m :: u32) = of_nat (m + 2)" by simp
    then show ?thesis using un [of "n + 3"] un [of "m + 2"] m rx(2)
      by (simp add: word_less_nat_alt del: of_nat_add)
  qed
  have n3: "(of_nat (n + 3) - 3 :: u32) = of_nat n" "(of_nat n + 1 :: u32) = of_nat (n + 1)"
    "(of_nat n - of_nat m :: u32) = of_nat (n - m)"
    using m by (simp_all add: of_nat_diff)
  have p: "payload ?t = take n (drop 1 ?d)" by (rule holds_packetD(5) [OF rx(1)])
  have crc: "CRC16 (drop 1 ?d) (sint (of_nat n :: u32)) = Inr (crc16_bytes (payload ?t))"
    using sint_of_nat_small [of n] rx(2) d by (simp add: CRC16_def p)
  have loop: "stream_check_loop (n - m) ?d (1 + m) (s_tst_lfsr ?s) ok =
      Inr (lfsr_after (n - m) (s_tst_lfsr ?s), ok \<and> drop m (payload ?t) = lfsr_bytes (n - m) (s_tst_lfsr ?s))"
    for ok
    using d m rx(2) by (subst stream_check_loop_eq) (simp_all add: p drop_take add.commute)
  have iff: "take (n + 3) ?d = data_packet pid (payload ?t) \<longleftrightarrow> ?d ! 0 = pid \<and>
      to_u16 (to_u32 (?d ! (n + 1)) OR push_bit 8 (to_u32 (?d ! (n + 2)))) = to_u16 (crc16_bytes (payload ?t))" for pid
    using data_packet_iff [of n ?d pid] d rx(2) p by simp
  have u: "unat (of_nat n + 1 :: u32) = n + 1" "unat (of_nat n - of_nat m :: u32) = n - m"
    using un [of "n + 1"] un [of "n - m"] rx(2) unfolding n3 by simp_all
  have head: "stream_data_check c k (Some i) (of_nat m) accept =
      (if to_u16 (to_u32 (?d ! (n + 1)) OR push_bit 8 (to_u32 (?d ! (n + 2)))) \<noteq> to_u16 (crc16_bytes (payload ?t))
       then Inr (False, c)
       else let (ok, c) = (if ?d ! 0 = c_ep_in c ! ?e
                then (accept, if accept then toggle_in c ?e else c) else (False, c)) in
         if s_checking ?s then
           Inr (ok \<and> drop m (payload ?t) = lfsr_bytes (n - m) (s_tst_lfsr ?s),
             if accept \<and> ok \<and> drop m (payload ?t) = lfsr_bytes (n - m) (s_tst_lfsr ?s)
             then upd_stream c k (\<lambda>s. s\<lparr>s_tst_lfsr := lfsr_after (n - m) (s_tst_lfsr ?s)\<rparr>) else c)
         else Inr (ok, c))"
    using i k e len d rx(2) un [of n] un [of m] pre crc loop m
    by (simp add: u stream_data_check_def get_tr_Some Let_def tl(2) tl(1) [simplified] toggle_in_def)
  show ?thesis
    unfolding head Let_def iff by auto
qed

section \<open>The stream signature\<close>

definition le16_bytes :: "u16 \<Rightarrow> u8 list" where
  "le16_bytes n = [to_u8 n, to_u8 (drop_bit 8 n)]"

definition le32_bytes :: "u32 \<Rightarrow> u8 list" where
  "le32_bytes n = [to_u8 n, to_u8 (drop_bit 8 n), to_u8 (drop_bit 16 n), to_u8 (drop_bit 24 n)]"

lemma get_le16_bytes [simp]: "get_le16 (le16_bytes n @ r) = Inr n"
  using le16_bits [of n] by (simp only: get_le16_def le16_bytes_def) simp

lemma get_le32_bytes [simp]: "get_le32 (le32_bytes n @ r) = Inr n"
  using le32_bits [of n] by (simp only: get_le32_def le32_bytes_def) simp

lemma length_le_bytes [simp]: "length (le16_bytes x) = 2" "length (le32_bytes n) = 4"
  by (simp_all add: le16_bytes_def le32_bytes_def)

text \<open>The sixteen bytes of a signature, as the comment in the code lays them out.\<close>

definition signature_bytes :: "u32 \<Rightarrow> u8 \<Rightarrow> u8 \<Rightarrow> u16 \<Rightarrow> u32 \<Rightarrow> u32 \<Rightarrow> u8 list" where
  "signature_bytes head lfsr sid seq num_bytes tail =
     le32_bytes head @ [lfsr, sid] @ le16_bytes seq @ le32_bytes num_bytes @ le32_bytes tail"

lemma length_signature_bytes [simp]: "length (signature_bytes head lfsr sid seq num_bytes tail) = 16"
  by (simp add: signature_bytes_def)

lemma signature_reads:
  assumes "d = signature_bytes head lfsr sid seq num_bytes tail @ r"
  shows "get_le32 d = Inr head" "get_le16 (drop 6 d) = Inr seq" "get_le32 (drop 8 d) = Inr num_bytes"
    "get_le32 (drop 12 d) = Inr tail" "arr_get d 4 = Inr lfsr"
  unfolding assms signature_bytes_def by (simp_all add: arr_get_def nth_append)

lemma stream_sig_check_eq:
  assumes inv: "ctx_inv H c" and i: "i < 32" and k: "k < 15"
    and rx: "holds_packet (c_pool c ! i) n" "n < 70" "16 \<le> n"
    and is_iso: "is_iso \<longleftrightarrow> s_xfr_type (c_stream c ! k) = USB_TRANSFER_TYPE_ISOCHRONOUS" "is_iso \<or> n = 16"
    and sig: "take 16 (payload (c_pool c ! i)) = signature_bytes head lfsr sid seq num_bytes tail"
  shows "stream_sig_check c k (Some i) =
    Inr (if head = STREAM_SIGNATURE_HEAD \<and> tail = STREAM_SIGNATURE_TAIL
            \<and> 0 < num_bytes \<and> num_bytes < 0x10000000
            \<and> (if is_iso then s_tst_seq (c_stream c ! k) \<le> seq else seq = s_tst_seq (c_stream c ! k))
         then (True, upd_stream (c\<lparr>c_ep_in := (c_ep_in c)[unat (s_ep_in (c_stream c ! k)) :=
                        if is_iso then USB_PID_DATA0 else DATA_TOGGLE_ADVANCE (t_data (c_pool c ! i) ! 0)]\<rparr>) k
                     (\<lambda>s. s\<lparr>s_tst_seq := seq + 1, s_tst_lfsr := lfsr\<rparr>))
         else (False, c))"
proof -
  let ?s = "c_stream c ! k" and ?t = "c_pool c ! i"
  have len: "length (c_pool c) = 32" "length (c_stream c) = 15" "length (c_ep_in c) = 16"
    using inv_lengths [OF inv] by simp_all
  have e: "unat (s_ep_in ?s) < 16" by (rule stream_ep_in [OF inv k])
  have d: "length (t_data ?t) = 73" using inv_wf [OF inv i] by (simp add: wf_transfer_def)
  have "drop (Suc 0) (t_data ?t) = take 16 (payload ?t) @ drop 17 (t_data ?t)"
    using rx(3) holds_packetD(5) [OF rx(1)] append_take_drop_id [of 16 "drop 1 (t_data ?t)"]
    by (simp add: min_def)
  from signature_reads [OF this [unfolded sig]]
  have reads: "get_le32 (drop (Suc 0) (t_data ?t)) = Inr head" "get_le16 (drop 6 (drop (Suc 0) (t_data ?t))) = Inr seq"
    "get_le32 (drop 8 (drop (Suc 0) (t_data ?t))) = Inr num_bytes"
    "get_le32 (drop 12 (drop (Suc 0) (t_data ?t))) = Inr tail" "arr_get (drop (Suc 0) (t_data ?t)) 4 = Inr lfsr" .
  have tl: "unat (transfer_length ?t) = n + 3"
    using holds_packetD(2) [OF rx(1)] by (simp add: transfer_length_def unat_ucast_up)
  have pid: "transfer_data_pid ?t = Inr (t_data ?t ! 0)"
    using rx(1,2) d by (simp add: transfer_data_pid_def holds_packet_def)
  show ?thesis
    using i k e len d tl is_iso rx(3) holds_packetD(3) [OF rx(1)] pid
    by (auto simp: stream_sig_check_def get_tr_Some Let_def reads simp del: drop_drop) (simp add: upd_stream_def)
qed

text \<open>The guard on the length of the packet comes before anything is read.\<close>

lemma stream_sig_check_length:
  assumes inv: "ctx_inv H c" and i: "i < 32" and k: "k < 15" and rx: "holds_packet (c_pool c ! i) n" "n < 70"
    and bad: "if s_xfr_type (c_stream c ! k) = USB_TRANSFER_TYPE_ISOCHRONOUS then n < 16 else n \<noteq> 16"
  shows "stream_sig_check c k (Some i) = Inr (False, c)"
proof -
  have "unat (transfer_length (c_pool c ! i)) = n + 3"
    using holds_packetD(2) [OF rx(1)] by (simp add: transfer_length_def unat_ucast_up)
  then show ?thesis
    using i k bad inv_lengths [OF inv]
    by (auto simp: stream_sig_check_def get_tr_Some Let_def split: if_splits)
qed

section \<open>An instance\<close>

text \<open>A created model that has received the packet \<open>t\<close>; the first stream has the seeds of stream 1.\<close>

definition seeded :: "u8 \<Rightarrow> stream" where
  "seeded typ = zero_stream\<lparr>s_xfr_type := typ, s_ep_in := 1, s_ep_out := 1, s_checking := True,
     s_tst_lfsr := 0x9B, s_dpi_lfsr := 0x55\<rparr>"

lemma create_sel:
  "c_stream (usbdpi_create l b) = replicate 15 zero_stream" "c_ep_in (usbdpi_create l b) = replicate 16 0xC3"
  "c_ep_out (usbdpi_create l b) = replicate 16 0xC3" "c_dev_address (usbdpi_create l b) = 0"
  "c_recving (usbdpi_create l b) = None"
  by (simp_all add: usbdpi_create_def usb_transfer_setup_def bus_reset_def zero_ctx_def Let_def case_prod_beta)

lemma packet_example:
  assumes "wf_transfer t" "t_next t = None"
  obtains c where "ctx_inv {0} c" "c_pool c ! 0 = t" "c_stream c ! 0 = seeded typ"
    "c_ep_in c ! 1 = 0xC3" "c_ep_out c ! 1 = 0xC3" "c_dev_address c = 0" "c_free c \<noteq> None"
proof -
  let ?d = "usbdpi_create 0 True"
  obtain d where d: "transfer_alloc ?d = Inr (Some 0, d)" "owns d {0}" "p_free (pool_abs d) \<noteq> []"
    by (rule create_alloc) simp
  have free: "c_free d \<noteq> None"
  proof
    assume "c_free d = None"
    then have "transfer_alloc d = Inr (None, d)" by (simp add: transfer_alloc_def)
    with transfer_alloc_abs [OF d(2)] d(3) show False by (auto split: list.splits)
  qed
  obtain p f where 1: "d = ?d\<lparr>c_free := f, c_pool := p\<rparr>" "ctx_inv {0} d" "length p = 32"
    using d(1) by (cases rule: alloc_cases [OF usbdpi_create_inv [of 0]]) auto
  let ?f = "\<lambda>s. (seeded typ)\<lparr>s_received := s_received s\<rparr>"
  let ?c = "upd_stream (d\<lparr>c_pool := p[0 := t]\<rparr>) 0 ?f"
  have "ctx_inv {0} (d\<lparr>c_pool := (c_pool d)[0 := t]\<rparr>)"
    using 1(2) assms by (intro inv_write) simp_all
  then have "ctx_inv {0} ?c"
    using 1(1) by (intro inv_upd_stream) (simp_all add: seeded_def stream_ok_def zero_stream_def)
  moreover have "c_stream ?c ! 0 = seeded typ"
    by (simp add: upd_stream_def 1(1) create_sel seeded_def zero_stream_def)
  ultimately show thesis
    using 1(1,3) free by (intro that [of ?c]) (simp_all add: upd_stream_def create_sel)
qed

section \<open>Properties\<close>

text \<open>
  C17: the reply to the first packet a stream has received is an OUT token for the stream's endpoint followed by
  a data packet whose payload is the received one combined, byte by byte, with the
  generator of the model; the generator is advanced over the bytes it has combined and its
  old state is kept for a repetition; the received packet is untouched.
\<close>

theorem stream_data_process_replies:
  assumes "ctx_inv H c" "k < USBDPI_MAX_STREAMS" "s_received (c_stream c ! k) = Some i" "c_free c = Some j"
    and "holds_packet (c_pool c ! i) n" "n \<le> USBDEV_MAX_PACKET_SIZE"
    and "s_xfr_type (c_stream c ! k) = USB_TRANSFER_TYPE_ISOCHRONOUS \<longrightarrow> 16 \<le> n"
  shows "\<exists>c'. stream_data_process c k (Some i) = Inr (Some j, c')
    \<and> take (unat (t_num_bytes (c_pool c' ! j))) (t_data (c_pool c' ! j)) =
        token_bytes USB_PID_OUT (c_dev_address c) (s_ep_out (c_stream c ! k))
        @ data_packet (c_ep_out c ! unat (s_ep_out (c_stream c ! k)))
            (reply_payload (c_stream c ! k) (payload (c_pool c ! i)))
    \<and> c_stream c' = (c_stream c)[k := (c_stream c ! k)
        \<lparr>s_dpi_rewind_lfsr := s_dpi_lfsr (c_stream c ! k), s_dpi_lfsr := reply_lfsr (c_stream c ! k) n\<rparr>]
    \<and> c_pool c' ! i = c_pool c ! i"
  using assms received_inv [of H c k i] by (intro stream_data_process_eq) auto

theorem stream_data_process_replies_witness:
  "\<exists>c c' j. stream_data_process c 0 (Some 0) = Inr (Some j, c')
    \<and> take (unat (t_num_bytes (c_pool c' ! j))) (t_data (c_pool c' ! j)) =
        token_bytes USB_PID_OUT 0 1 @ data_packet USB_PID_DATA0 [0x5A XOR 0x55]"
proof -
  let ?t = "zero_transfer\<lparr>t_num_bytes := 4, t_data := [0xC3, 0x5A] @ replicate 71 0\<rparr>"
  have t: "wf_transfer ?t" "t_next ?t = None" "holds_packet ?t 1" "payload ?t = [0x5A]"
    by (simp_all add: wf_transfer_def zero_transfer_def holds_packet_def payload_def)
  obtain c where c: "ctx_inv {0} c" "c_pool c ! 0 = ?t" "c_stream c ! 0 = seeded USB_TRANSFER_TYPE_BULK"
    "c_ep_out c ! 1 = 0xC3" "c_dev_address c = 0" "c_free c \<noteq> None"
    by (rule packet_example [OF t(1,2)])
  then obtain j where j: "c_free c = Some j" by blast
  have len: "length (c_stream c) = 15" using inv_lengths [OF c(1)] by simp
  let ?c = "upd_stream c 0 (\<lambda>s. s\<lparr>s_received := Some 0\<rparr>)"
  have "ctx_inv {} ?c"
    using c t by (intro inv_push_empty) (simp_all add: seeded_def zero_stream_def)
  from stream_data_process_replies [OF this, of 0 0 j 1] show ?thesis
    using c t(3,4) j len by (auto simp: seeded_def reply_payload_def zero_stream_def upd_stream_def)
qed

text \<open>
  C18: a received packet of which \<open>m\<close> bytes are consumed is accepted exactly when the caller
  accepts it, it is the data packet with the toggle the stream expects and the right CRC16,
  and, on a checked stream, the rest of its payload is what the device's generator yields.
  Only then does the generator advance; the toggle follows the packet's PID.
\<close>

theorem stream_data_check_accepts:
  assumes "ctx_inv H c" "i < USBDPI_MAX_TRANSFERS" "k < USBDPI_MAX_STREAMS"
    and "holds_packet (c_pool c ! i) n" "n < 70" "m \<le> n"
  shows "stream_data_check c k (Some i) (of_nat m) accept =
    (let s = c_stream c ! k; t = c_pool c ! i; e = unat (s_ep_in s);
         good = (drop m (payload t) = lfsr_bytes (n - m) (s_tst_lfsr s)) in
     if accept \<and> take (n + 3) (t_data t) = data_packet (c_ep_in c ! e) (payload t)
     then if \<not> s_checking s then Inr (True, toggle_in c e)
       else if good then Inr (True, upd_stream (toggle_in c e) k
              (\<lambda>s. s\<lparr>s_tst_lfsr := lfsr_after (n - m) (s_tst_lfsr (c_stream c ! k))\<rparr>))
       else Inr (False, toggle_in c e)
     else Inr (False, c))"
  using assms by (intro stream_data_check_eq) simp_all

theorem stream_data_check_accepts_witness:
  "\<exists>c. stream_data_check c 0 (Some 0) 0 True = Inr (True, upd_stream (toggle_in c 1) 0
      (\<lambda>s. s\<lparr>s_tst_lfsr := LFSR_ADVANCE 0x9B\<rparr>))"
proof -
  define t where "t = zero_transfer\<lparr>t_num_bytes := 4, t_data := data_packet 0xC3 [0x9B] @ replicate 69 0\<rparr>"
  have t: "wf_transfer t" "t_next t = None" "holds_packet t 1" "payload t = [0x9B]"
    "take 4 (t_data t) = data_packet 0xC3 [0x9B]"
    by (simp_all add: t_def wf_transfer_def zero_transfer_def holds_packet_def payload_def data_packet_def)
  obtain c where c: "ctx_inv {0} c" "c_pool c ! 0 = t" "c_stream c ! 0 = seeded USB_TRANSFER_TYPE_BULK"
    "c_ep_in c ! 1 = 0xC3"
    by (rule packet_example [OF t(1,2)])
  have "stream_data_check c 0 (Some 0) 0 True = Inr (True, upd_stream (toggle_in c 1) 0
      (\<lambda>s. s\<lparr>s_tst_lfsr := LFSR_ADVANCE 0x9B\<rparr>))"
    using stream_data_check_accepts [OF c(1), of 0 0 1 0 True] c(2-4) t(3-5) by (simp add: seeded_def)
  then show ?thesis ..
qed

text \<open>
  C19: a received packet of any length is accepted as the signature of a stream exactly when
  its length suits the type of the transfers (exactly a signature, or at least one on an
  Isochronous stream), both signature words and the number of bytes are right and the sequence
  number is the expected one, or, on an Isochronous stream, not an earlier one.  The stream then
  continues with the sequence number and the generator that the signature announces; a packet
  that is refused changes nothing.
\<close>

theorem stream_sig_check_accepts:
  assumes "ctx_inv H c" "i < USBDPI_MAX_TRANSFERS" "k < USBDPI_MAX_STREAMS"
    and "holds_packet (c_pool c ! i) n" "n < 70"
    and is_iso: "is_iso \<longleftrightarrow> s_xfr_type (c_stream c ! k) = USB_TRANSFER_TYPE_ISOCHRONOUS"
    and "16 \<le> n \<longrightarrow> take 16 (payload (c_pool c ! i)) = signature_bytes head lfsr sid seq num_bytes tail"
  shows "stream_sig_check c k (Some i) =
    Inr (if (if is_iso then 16 \<le> n else n = 16)
            \<and> head = STREAM_SIGNATURE_HEAD \<and> tail = STREAM_SIGNATURE_TAIL
            \<and> 0 < num_bytes \<and> num_bytes < 0x10000000
            \<and> (if is_iso then s_tst_seq (c_stream c ! k) \<le> seq else seq = s_tst_seq (c_stream c ! k))
         then (True, upd_stream (c\<lparr>c_ep_in := (c_ep_in c)[unat (s_ep_in (c_stream c ! k)) :=
                        if is_iso then USB_PID_DATA0 else DATA_TOGGLE_ADVANCE (t_data (c_pool c ! i) ! 0)]\<rparr>) k
                     (\<lambda>s. s\<lparr>s_tst_seq := seq + 1, s_tst_lfsr := lfsr\<rparr>))
         else (False, c))"
proof (cases "if is_iso then 16 \<le> n else n = 16")
  case True
  then have "16 \<le> n" "is_iso \<or> n = 16" by (auto split: if_splits)
  then show ?thesis
    using assms stream_sig_check_eq [of H c i k n is_iso head lfsr sid seq num_bytes tail] True by simp
next
  case False
  then show ?thesis
    using assms by (subst stream_sig_check_length [of H c i k n]) (auto split: if_splits)
qed

theorem stream_sig_check_accepts_witness:
  "\<exists>c c'. stream_sig_check c 0 (Some 0) = Inr (True, c')
    \<and> s_tst_lfsr (c_stream c' ! 0) = 0x37 \<and> s_tst_seq (c_stream c' ! 0) = 1"
proof -
  let ?sig = "signature_bytes STREAM_SIGNATURE_HEAD 0x37 1 0 0x40 STREAM_SIGNATURE_TAIL"
  define t where "t = zero_transfer\<lparr>t_num_bytes := 19, t_data := 0xC3 # ?sig @ replicate 56 0\<rparr>"
  have t: "wf_transfer t" "t_next t = None" "holds_packet t 16" "take 16 (payload t) = ?sig"
    by (simp_all add: t_def wf_transfer_def zero_transfer_def holds_packet_def payload_def)
  obtain c where c: "ctx_inv {0} c" "c_pool c ! 0 = t" "c_stream c ! 0 = seeded USB_TRANSFER_TYPE_BULK"
    "c_ep_in c ! 1 = 0xC3"
    by (rule packet_example [OF t(1,2)])
  have len: "length (c_stream c) = 15" using inv_lengths [OF c(1)] by simp
  have "\<exists>c'. stream_sig_check c 0 (Some 0) = Inr (True, c')
    \<and> s_tst_lfsr (c_stream c' ! 0) = 0x37 \<and> s_tst_seq (c_stream c' ! 0) = 1"
    using stream_sig_check_accepts [OF c(1), of 0 0 16 False] c(2,3) t(3,4) len
    by (simp add: seeded_def zero_stream_def upd_stream_def)
  then show ?thesis by blast
qed

end
