(* ===== verification/Link.thy ===== *)
theory Link
  imports Mon_Decode Host_Encode Stream_Data
begin

text \<open>
  Packets between the device and the host model, end to end: what the line driver sends is
  what the monitor reads, and a packet that the device sends arrives, through the monitor and
  its callback, in the descriptor that receives it.
\<close>

section \<open>The callback's effect on a descriptor\<close>

abbreviation set_lastrxpid :: "u8 \<Rightarrow> ctx \<Rightarrow> ctx" where
  "set_lastrxpid pid c \<equiv> c\<lparr>c_lastrxpid := pid\<rparr>"

text \<open>The context while the descriptor \<open>i\<close> receives: only \<open>c\<close>'s last PID and that descriptor change.\<close>

definition rx :: "ctx \<Rightarrow> nat \<Rightarrow> u8 \<Rightarrow> transfer \<Rightarrow> ctx" where
  "rx c i pid t = c\<lparr>c_lastrxpid := pid, c_pool := (c_pool c)[i := t]\<rparr>"

definition rx_ok :: "ctx \<Rightarrow> nat \<Rightarrow> bool" where
  "rx_ok c i \<longleftrightarrow> c_state c = ST_GET \<and> c_recving c = Some i \<and> i < length (c_pool c)"

text \<open>\<open>rx_holds t start bs\<close>: the descriptor has received the bytes \<open>bs\<close>.\<close>

definition rx_holds :: "transfer \<Rightarrow> u8 \<Rightarrow> u8 list \<Rightarrow> bool" where
  "rx_holds t start bs \<longleftrightarrow> wf_transfer t \<and> t_data_start t = start \<and> unat (t_num_bytes t) = length bs
     \<and> take (length bs) (t_data t) = bs"

lemma rx_holdsD:
  "rx_holds t start bs \<Longrightarrow> wf_transfer t \<and> t_data_start t = start \<and> unat (t_num_bytes t) = length bs
     \<and> take (length bs) (t_data t) = bs \<and> length (t_data t) = 73"
  by (simp add: rx_holds_def wf_transfer_def)

lemma rx_holds_init: "wf_transfer t \<Longrightarrow> rx_holds (transfer_init t) 0xff []"
  by (simp add: rx_holds_def)

lemma rx_append:
  assumes "rx_holds t start bs" "length bs < 73"
  shows "\<exists>t'. transfer_append t [d] = Inr (True, t') \<and> rx_holds t' start (bs @ [d])"
proof -
  note h = rx_holdsD [OF assms(1)]
  have n: "unat (t_num_bytes t) = length bs" using h by simp
  have "\<not> 73 - ucast (t_num_bytes t) < (1 :: 64 word)"
    using unat_sub_ucast_64 [of "t_num_bytes t"] n assms(2) by (simp add: word_less_nat_alt)
  moreover have "unat (t_num_bytes t + 1) = length bs + 1"
    using n assms(2) by (subst unat_word_ariths) simp
  moreover have "arr_write (t_data t) (length bs) [d] = Inr ((t_data t)[length bs := d])"
    using h assms(2) by (simp add: arr_write_def upd_conv_take_nth_drop)
  moreover have "take (length bs + 1) ((t_data t)[length bs := d]) = bs @ [d]"
    using h assms(2) by (simp add: take_Suc_conv_app_nth)
  ultimately show ?thesis
    using h n assms(2)
    by (intro exI [of _ "t\<lparr>t_data := (t_data t)[length bs := d], t_num_bytes := t_num_bytes t + 1\<rparr>"])
      (simp add: transfer_append_def Let_def rx_holds_def wf_transfer_def)
qed

lemma rx_pid:
  assumes "rx_holds t start []" "data_pid pid"
  shows "\<exists>t'. transfer_data_start t pid 0 = Inr (t', Some 1) \<and> rx_holds t' 0 [pid]"
proof -
  note h = rx_holdsD [OF assms(1)]
  have n: "t_num_bytes t = 0" using h by (simp add: unat_eq_0)
  have "take 1 ((t_data t)[0 := pid]) = [pid]" using h by (cases "t_data t") simp_all
  then show ?thesis
    using h n assms(2)
    by (intro exI [of _ "t\<lparr>t_data_start := 0, t_data := (t_data t)[0 := pid], t_num_bytes := 1\<rparr>"])
      (auto simp: transfer_data_start_def Let_def rx_holds_def wf_transfer_def data_pid_def)
qed

lemma callback_step:
  assumes "rx_ok c i"
    and "(case type of
        UsbMon_DataType_Sync \<Rightarrow> Inr (True, transfer_init t)
      | UsbMon_DataType_EOP \<Rightarrow> Inr (True, t)
      | UsbMon_DataType_PID \<Rightarrow>
          if d = USB_PID_DATA0 \<or> d = USB_PID_DATA1
          then bnd (transfer_data_start t d 0) (\<lambda>(t, dp). Inr (dp \<noteq> None, t))
          else transfer_append t [d]
      | UsbMon_DataType_Byte \<Rightarrow> transfer_append t [d]) = Inr (True, t')"
  shows "usbdpi_data_callback type d (rx c i pid t) = Inr (rx c i pid t')"
proof -
  have "get_tr (rx c i pid t) (Some i) = Inr t"
    using assms(1) by (simp add: get_tr_Some rx_ok_def rx_def)
  moreover have "upd_tr (rx c i pid t) (Some i) (\<lambda>_. Inr t') = Inr (rx c i pid t')"
    using assms(1) by (simp add: upd_tr_Some rx_ok_def rx_def)
  moreover have "c_state (rx c i pid t) = ST_GET" "c_recving (rx c i pid t) = Some i"
    using assms(1) by (simp_all add: rx_ok_def rx_def)
  ultimately show ?thesis
    by (simp add: usbdpi_data_callback_def assms(2) del: upd_tr_def get_tr_def)
qed

lemma rx_self: "rx_ok c i \<Longrightarrow> rx c i (c_lastrxpid c) (c_pool c ! i) = c"
  by (simp add: rx_ok_def rx_def)

lemma rx_bytes:
  assumes "rx_ok c i" "rx_holds t start bs" "length bs + length ds \<le> 73"
  shows "\<exists>t'. deliver_bytes (Some usbdpi_data_callback) ds (rx c i pid t) = Inr (rx c i pid t')
    \<and> rx_holds t' start (bs @ ds)"
  using assms(2,3)
proof (induction ds arbitrary: t bs)
  case Nil
  then show ?case by (intro exI [of _ t]) simp
next
  case (Cons d ds)
  obtain t1 where 1: "transfer_append t [d] = Inr (True, t1)" "rx_holds t1 start (bs @ [d])"
    using rx_append [OF Cons.prems(1), of d] Cons.prems(2) by auto
  have "usbdpi_data_callback UsbMon_DataType_Byte d (rx c i pid t) = Inr (rx c i pid t1)"
    using 1(1) by (intro callback_step [OF assms(1)]) simp
  moreover obtain t2 where "deliver_bytes (Some usbdpi_data_callback) ds (rx c i pid t1) = Inr (rx c i pid t2)"
    "rx_holds t2 start (bs @ d # ds)"
    using Cons.IH [OF 1(2)] Cons.prems(2) by auto
  ultimately show ?case
    by (intro exI [of _ t2]) (simp add: data_callback_def)
qed

lemma deliver_received:
  assumes "rx_ok c i" "wf_transfer (c_pool c ! i)" "length ds \<le> 72"
  shows "\<exists>t'. deliver (Some usbdpi_data_callback) set_lastrxpid pid ds c = Inr (rx c i pid t')
    \<and> rx_holds t' (if data_pid pid then 0 else 0xff) (pid # ds)"
proof -
  let ?t = "transfer_init (c_pool c ! i)"
  have 1: "usbdpi_data_callback UsbMon_DataType_Sync 0 c = Inr (rx c i (c_lastrxpid c) ?t)"
    using callback_step [OF assms(1), where type = UsbMon_DataType_Sync and t = "c_pool c ! i" and d = 0
        and t' = ?t and pid = "c_lastrxpid c"] rx_self [OF assms(1)]
    by simp
  have l: "set_lastrxpid pid (rx c i (c_lastrxpid c) t) = rx c i pid t" for t by (simp add: rx_def)
  obtain t1 where 2: "usbdpi_data_callback UsbMon_DataType_PID pid (rx c i pid ?t) = Inr (rx c i pid t1)"
    "rx_holds t1 (if data_pid pid then 0 else 0xff) [pid]"
  proof (cases "data_pid pid")
    case True
    obtain t1 where "transfer_data_start ?t pid 0 = Inr (t1, Some 1)" "rx_holds t1 0 [pid]"
      using rx_pid [OF rx_holds_init [OF assms(2)] True] by blast
    then show thesis
      using True by (intro that [of t1] callback_step [OF assms(1)]) (auto simp: data_pid_def)
  next
    case False
    obtain t1 where "transfer_append ?t [pid] = Inr (True, t1)" "rx_holds t1 0xff [pid]"
      using rx_append [OF rx_holds_init [OF assms(2)], of pid] by auto
    then show thesis
      using False by (intro that [of t1] callback_step [OF assms(1)]) (auto simp: data_pid_def)
  qed
  obtain t2 where 3: "deliver_bytes (Some usbdpi_data_callback) ds (rx c i pid t1) = Inr (rx c i pid t2)"
    "rx_holds t2 (if data_pid pid then 0 else 0xff) (pid # ds)"
    using rx_bytes [OF assms(1) 2(2), of ds pid] assms(3) by auto
  have "usbdpi_data_callback UsbMon_DataType_EOP 0 (rx c i pid t2) = Inr (rx c i pid t2)"
    by (rule callback_step [OF assms(1)]) simp
  then have "deliver (Some usbdpi_data_callback) set_lastrxpid pid ds c = Inr (rx c i pid t2)"
    using 1 2(1) 3(1) l by (simp add: deliver_def data_callback_def)
  then show ?thesis using 3(2) by blast
qed

text \<open>Without a descriptor to receive into, the first call takes one from the pool.\<close>

lemma deliver_alloc:
  assumes "c_state c = ST_GET" "c_recving c = None" "transfer_alloc c = Inr (Some i, c1)"
    and "c_state c1 = ST_GET"
  shows "deliver (Some usbdpi_data_callback) sl pid ds c = deliver (Some usbdpi_data_callback) sl pid ds (c1\<lparr>c_recving := Some i\<rparr>)"
proof -
  have "usbdpi_data_callback UsbMon_DataType_Sync 0 c = usbdpi_data_callback UsbMon_DataType_Sync 0 (c1\<lparr>c_recving := Some i\<rparr>)"
    using assms by (simp add: usbdpi_data_callback_def Let_def del: upd_tr_def get_tr_def)
  then show ?thesis by (simp add: deliver_def data_callback_def)
qed

lemma receiving_context:
  assumes inv: "ctx_inv {} c" and get: "c_state c = ST_GET"
    and i: "c_recving c = Some i \<or> c_recving c = None \<and> c_free c = Some i"
  shows "\<exists>c1. (\<forall>sl pid ds. deliver (Some usbdpi_data_callback) sl pid ds c = deliver (Some usbdpi_data_callback) sl pid ds c1)
    \<and> rx_ok c1 i \<and> wf_transfer (c_pool c1 ! i)
    \<and> (\<forall>pid t. rx c1 i pid t = c\<lparr>c_lastrxpid := pid, c_recving := Some i, c_pool := (c_pool c)[i := t],
                 c_free := (if c_recving c = None then t_next (c_pool c ! i) else c_free c)\<rparr>)"
  using i
proof
  assume r: "c_recving c = Some i"
  then have "rx_ok c i" "wf_transfer (c_pool c ! i)"
    using inv_recving [OF inv r] inv_lengths [OF inv] inv_wf [OF inv] get by (simp_all add: rx_ok_def)
  with r show ?thesis by (intro exI [of _ c]) (cases c, simp add: rx_def)
next
  assume r: "c_recving c = None \<and> c_free c = Some i"
  let ?c = "c\<lparr>c_free := t_next (c_pool c ! i), c_pool := (c_pool c)[i := transfer_init (c_pool c ! i)]\<rparr>"
  have own: "owns c (held c \<union> {})" using inv by (simp add: ctx_inv_def)
  have a: "transfer_alloc c = Inr (Some i, ?c)" "i < 32"
    using transfer_alloc_spec [OF own] r by auto
  moreover have "wf_transfer (transfer_init (c_pool c ! i))" using inv_wf [OF inv a(2)] by simp
  ultimately show ?thesis
    using r get inv_lengths [OF inv] deliver_alloc [OF get _ a(1)]
    by (intro exI [of _ "?c\<lparr>c_recving := Some i\<rparr>"]) (simp add: rx_def rx_ok_def)
qed

section \<open>The monitor on the signals\<close>

text \<open>One bit interval: does the host drive, its signals, the device's signals.\<close>

type_synonym sample = "bool \<times> u32 \<times> u32"

fun usb_run :: "'c mon_callback \<Rightarrow> (u8 \<Rightarrow> 'c \<Rightarrow> 'c) \<Rightarrow> u32 \<Rightarrow> u32 \<Rightarrow> sample list \<Rightarrow> monitor \<Rightarrow> 'c
    \<Rightarrow> (monitor \<times> 'c) res" where
  "usb_run cb sl loglevel t [] m c = Inr (m, c)"
| "usb_run cb sl loglevel t ((hdrive, p2d, d2p) # ss) m c =
     bnd (usb_monitor cb sl (Some m) loglevel t hdrive p2d d2p c) (\<lambda>(m, c). usb_run cb sl loglevel (t + 1) ss m c)"

text \<open>The sample shows the state \<open>l\<close> of the pair, driven by the host or by the device alone.\<close>

fun presents :: "mon_driver \<Rightarrow> sample \<Rightarrow> bool \<times> bool \<Rightarrow> bool" where
  "presents M_HOST (hdrive, p2d, d2p) l \<longleftrightarrow> hdrive \<and> \<not> device_drives d2p \<and> l = swap_lines d2p (host_lines p2d d2p)"
| "presents M_DEVICE (hdrive, p2d, d2p) l \<longleftrightarrow> \<not> hdrive \<and> device_drives d2p \<and> l = swap_lines d2p (device_lines d2p)"
| "presents M_NONE _ _ \<longleftrightarrow> False"

lemma wp_any: "(\<And>x. Q x) \<Longrightarrow> wp any_error m Q"
  by (cases m) simp_all

lemma log_packet_driver:
  "wp any_error (mon_log_packet m compact t) (\<lambda>m'. m_driver m' = m_driver m \<and> m_state m' = m_state m)"
  by (auto simp: mon_log_packet_def Let_def mon_printf_def intro!: wp_any)

lemma mon_line_driver:
  "wp any_error (mon_line cb sl m log compact t l c) (\<lambda>x. m_driver (fst x) = m_driver m)"
proof -
  have complete: "wp any_error (mon_complete cb sl m log t c) (\<lambda>x. m_driver (fst x) = m_driver m)" for m log
    by (auto simp: mon_complete_def Let_def intro!: wp_any split: mon_state.split)
  have eop: "wp any_error (mon_eop cb m log compact t c) (\<lambda>x. m_driver (fst x) = m_driver m)" for m log
    by (auto simp: mon_eop_def Let_def intro!: wp_any wp_mono [OF log_packet_driver])
  have bit: "wp any_error (mon_bit cb sl m log t c) (\<lambda>x. m_driver (fst x) = m_driver m)" for m log
    by (auto simp: mon_bit_def Let_def intro!: wp_mono [OF complete])
  show ?thesis
    by (auto simp: mon_line_def Let_def intro!: wp_any [of _ "data_callback _ _ _ _"] wp_mono [OF eop] wp_mono [OF bit])
qed

lemma usb_monitor_presents:
  assumes "presents drv (hdrive, p2d, d2p) l"
  shows "usb_monitor cb sl (Some m) loglevel t hdrive p2d d2p c =
    mon_line cb sl (m\<lparr>m_driver := drv\<rparr>) (has loglevel 2) (has loglevel 1) t l c"
  using assms by (cases drv) (simp_all add: usb_monitor_def mon_sample_def Let_def)

lemma usb_run_eq:
  assumes "list_all2 (presents drv) ss ls" "ss \<noteq> []"
  shows "usb_run cb sl loglevel t ss m c =
    mon_run cb sl (has loglevel 2) (has loglevel 1) t ls (m\<lparr>m_driver := drv\<rparr>) c"
  using assms
proof (induction ss arbitrary: ls t m c)
  case (Cons s ss)
  obtain l ls' where ls: "ls = l # ls'" "presents drv s l" "list_all2 (presents drv) ss ls'"
    using Cons.prems(1) by (auto simp: list_all2_Cons1)
  obtain h p d where s: "s = (h, p, d)" by (cases s)
  let ?m = "mon_line cb sl (m\<lparr>m_driver := drv\<rparr>) (has loglevel 2) (has loglevel 1) t l c"
  show ?case
  proof (cases ?m)
    case (Inr x)
    obtain m' c' where x: "x = (m', c')" by (cases x)
    have "m_driver m' = drv"
      using mon_line_driver [of cb sl "m\<lparr>m_driver := drv\<rparr>" "has loglevel 2" "has loglevel 1" t l c] Inr x by simp
    then have e: "m'\<lparr>m_driver := drv\<rparr> = m'" by simp
    show ?thesis
    proof (cases "ss = []")
      case True
      then show ?thesis
        using ls(3) unfolding s ls(1) by (simp add: usb_monitor_presents [OF ls(2) [unfolded s]] Inr x)
    next
      case False
      from Cons.IH [OF ls(3) False, of "t + 1" m' c'] show ?thesis
        unfolding s ls(1) by (simp add: usb_monitor_presents [OF ls(2) [unfolded s]] Inr x e)
    qed
  qed (simp add: s ls(1) usb_monitor_presents [OF ls(2) [unfolded s]])
qed simp

lemma mon_ready_driver [simp]: "mon_ready (m\<lparr>m_driver := drv\<rparr>) = mon_ready m"
  by (simp add: mon_ready_def monitor_ok_def)

lemma packet_lines_not_Nil [simp]: "packet_lines tail ds \<noteq> []"
  by (simp add: packet_lines_def)

lemma usb_run_packet:
  assumes "mon_ready m" "\<not> pid_bad pid" "length ds < 256"
    and "has loglevel 1 \<or> \<not> has loglevel 2 \<or> length ds \<noteq> 1"
    and "list_all2 (presents drv) ss (packet_lines tail (pid # ds))"
  shows "\<exists>m'. (\<forall>c. usb_run cb sl loglevel t ss m c = bnd (deliver cb sl pid ds c) (\<lambda>c. Inr (m', c)))
    \<and> mon_ready m' \<and> m_lastpid m' = pid \<and> unat (m_byte m') = length ds \<and> take (length ds) (m_bytes m') = ds"
proof -
  have "ss \<noteq> []" using assms(5) by auto
  obtain m' where m': "\<And>c. mon_run cb sl (has loglevel 2) (has loglevel 1) t (packet_lines tail (pid # ds)) (m\<lparr>m_driver := drv\<rparr>) c
      = bnd (deliver cb sl pid ds c) (\<lambda>c. Inr (m', c))" "mon_ready m'" "m_lastpid m' = pid"
    "unat (m_byte m') = length ds" "m_bytes m' = ds @ drop (length ds) (m_bytes m)"
    using mon_run_packet [of "m\<lparr>m_driver := drv\<rparr>" pid ds "has loglevel 1" "has loglevel 2" cb sl t tail] assms(1-4)
    by auto
  then show ?thesis
    using usb_run_eq [OF assms(5) \<open>ss \<noteq> []\<close>, of cb sl loglevel t m] by (intro exI [of _ m']) simp
qed

text \<open>A sample of the pair between packets.\<close>

lemma mon_run_idle:
  assumes "mon_ready m"
  shows "\<exists>m'. (\<forall>c. mon_run cb sl log compact t [lv True] m c = Inr (m', c)) \<and> mon_ready m'"
proof -
  have "mon_line cb sl m log compact t (lv True) c = Inr (m\<lparr>m_line := shift_line (m_line m) (lv True)\<rparr>, c)" for c
    using assms by (intro mon_line_idle) (simp_all add: mon_ready_def)
  then show ?thesis
    using assms by (intro exI [of _ "m\<lparr>m_line := shift_line (m_line m) (lv True)\<rparr>"]) (simp add: mon_ready_def monitor_ok_def)
qed

lemma mon_run_two_packets:
  assumes "mon_ready m" "\<not> pid_bad pa" "\<not> pid_bad pb" "length as < 256" "length bs < 256"
    and "compact \<or> \<not> log \<or> length as \<noteq> 1 \<and> length bs \<noteq> 1"
  shows "\<exists>m'. (\<forall>c. mon_run cb sl log compact t
      (packet_lines ta (pa # as) @ [lv True] @ packet_lines tb (pb # bs) @ [lv True]) m c =
      bnd (deliver cb sl pa as c) (\<lambda>c. bnd (deliver cb sl pb bs c) (\<lambda>c. Inr (m', c)))) \<and> mon_ready m'"
proof -
  let ?A = "packet_lines ta (pa # as)" and ?B = "packet_lines tb (pb # bs)"
  let ?t1 = "t + of_nat (length ?A)"
  let ?t2 = "?t1 + of_nat (length [lv True])"
  let ?t3 = "?t2 + of_nat (length ?B)"
  obtain m1 where 1: "\<And>c. mon_run cb sl log compact t ?A m c = bnd (deliver cb sl pa as c) (\<lambda>c. Inr (m1, c))" "mon_ready m1"
    using mon_run_packet [OF assms(1,2,4), of compact log cb sl t ta] assms(6) by auto
  obtain m2 where 2: "\<And>c. mon_run cb sl log compact ?t1 [lv True] m1 c = Inr (m2, c)" "mon_ready m2"
    using mon_run_idle [OF 1(2), of cb sl log compact ?t1] by blast
  obtain m3 where 3: "\<And>c. mon_run cb sl log compact ?t2 ?B m2 c = bnd (deliver cb sl pb bs c) (\<lambda>c. Inr (m3, c))" "mon_ready m3"
    using mon_run_packet [OF 2(2) assms(3,5), of compact log cb sl ?t2 tb] assms(6) by auto
  obtain m4 where 4: "\<And>c. mon_run cb sl log compact ?t3 [lv True] m3 c = Inr (m4, c)" "mon_ready m4"
    using mon_run_idle [OF 3(2), of cb sl log compact ?t3] by blast
  have "mon_run cb sl log compact t (?A @ [lv True] @ ?B @ [lv True]) m c =
      bnd (deliver cb sl pa as c) (\<lambda>c. bnd (deliver cb sl pb bs c) (\<lambda>c. Inr (m4, c)))" for c
    unfolding mon_run_append 1(1) bnd_assoc bnd_Inr prod.case 2(1) 3(1) 4(1) by (rule refl)
  then show ?thesis using 4(2) by blast
qed

section \<open>The host sends\<close>

text \<open>A transfer has been handed over to the driver.\<close>

definition ready_to_send :: "ctx \<Rightarrow> nat \<Rightarrow> bool" where
  "ready_to_send c i \<longleftrightarrow> tx_ok c i \<and> c_state c = ST_SYNC \<and> c_bit c = 1 \<and> c_byte c = 0"

text \<open>What is to be seen on the pair: the packet, and the data packet of a data stage.\<close>

definition transfer_lines :: "transfer \<Rightarrow> (bool \<times> bool) list" where
  "transfer_lines t =
     (let n = unat (t_num_bytes t); s = unat (t_data_start t); ds = take n (t_data t) in
      if 0 < s \<and> s < n
      then packet_lines False (take s ds) @ [lv True] @ packet_lines True (drop s ds) @ [lv True]
      else packet_lines True ds @ [lv True])"

lemma ready_to_send_tx:
  "ready_to_send c i \<Longrightarrow> c = tx c (c_driving c) (c_linebits c) 1 0 ST_SYNC"
  using tx_self [of c] by (simp add: ready_to_send_def)

lemma drive_transfer:
  assumes "ready_to_send c i" "has d2p D2P_PU" "0 < t_num_bytes (c_pool c ! i)"
    and "t_data_start (c_pool c ! i) \<noteq> t_num_bytes (c_pool c ! i)"
  shows "\<exists>D L. drive_run (length (transfer_lines (c_pool c ! i))) d2p c =
    Inr (transfer_lines (c_pool c ! i), tx c D L 4 (unat (t_num_bytes (c_pool c ! i))) ST_IDLE)"
proof -
  let ?t = "c_pool c ! i"
  let ?n = "unat (t_num_bytes ?t)" and ?s = "unat (t_data_start ?t)"
  let ?ds = "take ?n (t_data ?t)"
  have ok: "tx_ok c i" using assms(1) by (simp add: ready_to_send_def)
  then have len: "length ?ds = ?n" by (simp add: tx_ok_def wf_transfer_def)
  have n: "0 < ?n" "?s \<noteq> ?n"
    using assms(3,4) unfolding word_unat_eq_iff by (simp_all add: unat_gt_0)
  note c = ready_to_send_tx [OF assms(1)]
  show ?thesis
  proof (cases "0 < ?s \<and> ?s < ?n")
    case False
    have "?ds \<noteq> []" using len n(1) by auto
    then obtain D L where "drive_run (length (packet_lines True ?ds) + 1) d2p c =
        Inr (packet_lines True ?ds @ [lv True], tx c D L 4 ?n ST_IDLE)"
      using tx_packet_last [OF ok assms(2), of ?ds 0 "c_driving c" "c_linebits c"] len n(2) False
      unfolding c [symmetric] by auto
    then show ?thesis using False by (auto simp: transfer_lines_def Let_def)
  next
    case True
    have a: "take ?s ?ds \<noteq> []" "length (take ?s ?ds) = ?s" "length (drop ?s ?ds) = ?n - ?s" "drop ?s ?ds \<noteq> []"
      using len True by auto
    obtain D1 L1 where 1: "drive_run (length (packet_lines False (take ?s ?ds)) + 1) d2p c =
        Inr (packet_lines False (take ?s ?ds) @ [lv True], tx c D1 L1 1 ?s ST_SYNC)"
      using tx_packet_stage [OF ok assms(2) a(1), of 0 "c_driving c" "c_linebits c"] a(2) True
      unfolding c [symmetric] by auto
    have "take (?n - ?s) (drop ?s (t_data ?t)) = drop ?s ?ds" by (simp add: drop_take)
    then obtain D2 L2 where 2: "drive_run (length (packet_lines True (drop ?s ?ds)) + 1) d2p (tx c D1 L1 1 ?s ST_SYNC) =
        Inr (packet_lines True (drop ?s ?ds) @ [lv True], tx c D2 L2 4 ?n ST_IDLE)"
      using tx_packet_last [OF ok assms(2) a(4), of ?s D1 L1] a(3) True by auto
    from drive_run_append [OF 1 2] True show ?thesis
      by (auto simp: transfer_lines_def Let_def add.assoc)
  qed
qed

lemma transfer_lines_transaction:
  assumes "t_data_start t = 3" "unat (t_num_bytes t) = length dp + 3" "0 < length dp" "length tok = 3"
    and "take (unat (t_num_bytes t)) (t_data t) = tok @ dp"
  shows "transfer_lines t = packet_lines False tok @ [lv True] @ packet_lines True dp @ [lv True]"
  using assms by (simp add: transfer_lines_def Let_def)

text \<open>A token and its data stage, built one after the other in a descriptor.\<close>

lemma token_then_data:
  assumes "wf_transfer t" "device < 0x80" "endpoint < 0x10" "data_pid dpid" "est \<le> 69" "length p < 67"
  shows "\<exists>t'. bnd (transfer_token t pid device endpoint) (\<lambda>t. data_stage t dpid est p) = Inr t' \<and> wf_transfer t'
    \<and> t_data_start t' = 3 \<and> unat (t_num_bytes t') = length p + 6
    \<and> take (length p + 6) (t_data t') = token_bytes pid device endpoint @ data_packet dpid p"
proof -
  let ?tok = "t\<lparr>t_next := None, t_num_bytes := 3, t_data_start := 0xff,
           t_data := token_bytes pid device endpoint @ drop 3 (t_data t)\<rparr>"
  let ?t = "?tok\<lparr>t_data_start := 3, t_num_bytes := of_nat (length p + 6),
      t_data := take 3 (t_data ?tok) @ data_packet dpid p @ drop (length p + 6) (t_data ?tok)\<rparr>"
  have wf: "wf_transfer ?tok" using assms(1) by (simp add: wf_transfer_def)
  have n: "unat (3 :: u8) = 3" "3 + 3 + length p = length p + 6" "t_num_bytes ?tok = 3" by simp_all
  have un: "unat (of_nat (length p + 6) :: u8) = length p + 6" using assms(6) by (intro unat_of_nat_small) simp
  have est: "unat est \<le> 69" using assms(5) by (simp add: word_le_nat_alt)
  have "data_stage ?tok dpid est p = Inr ?t"
    by (rule data_stage_eq [OF wf, of dpid est p, unfolded n(3) n(1,2)])
      (use assms(4,6) est in \<open>simp_all add: data_pid_def\<close>)
  then show ?thesis
    using assms(1,6) transfer_token_eq [OF assms(1-3), of pid] un
    by (intro exI [of _ ?t]) (simp add: wf_transfer_def del: of_nat_add)
qed

text \<open>The eight bytes of a SETUP request.\<close>

definition setup_bytes :: "u8 \<Rightarrow> u8 \<Rightarrow> u16 \<Rightarrow> u16 \<Rightarrow> u16 \<Rightarrow> u8 list" where
  "setup_bytes bmRequestType bRequest wValue wIndex wLength =
     [bmRequestType, bRequest] @ le16_bytes wValue @ le16_bytes wIndex @ le16_bytes wLength"

lemma setup_prepared:
  assumes "ctx_inv {} c" "c_sending c = Some i"
  shows "\<exists>c'. transfer_setup c (Some i) bmRequestType bRequest wValue wIndex wLength = Inr c'
    \<and> ready_to_send c' i \<and> t_num_bytes (c_pool c' ! i) = 14 \<and> t_data_start (c_pool c' ! i) = 3
    \<and> c_bus_state c' = kUsbControlSetup \<and> c_hostSt c' = HS_WAITACK
    \<and> transfer_lines (c_pool c' ! i) =
        packet_lines False (token_bytes USB_PID_SETUP (c_dev_address c) 0) @ [lv True]
        @ packet_lines True (data_packet USB_PID_DATA0 (setup_bytes bmRequestType bRequest wValue wIndex wLength)) @ [lv True]"
proof -
  let ?p = "setup_bytes bmRequestType bRequest wValue wIndex wLength"
  have i: "i < 32" "length (c_pool c) = 32" using inv_sending [OF assms] inv_lengths [OF assms(1)] by simp_all
  obtain t t' where t: "transfer_token (c_pool c ! i) USB_PID_SETUP (c_dev_address c) 0 = Inr t"
    "data_stage t USB_PID_DATA0 8 ?p = Inr t'" "wf_transfer t'" "t_data_start t' = 3" "unat (t_num_bytes t') = 14"
    "take 14 (t_data t') = token_bytes USB_PID_SETUP (c_dev_address c) 0 @ data_packet USB_PID_DATA0 ?p"
    using token_then_data [OF inv_wf [OF assms(1) i(1)] inv_dev [OF assms(1)], of 0 USB_PID_DATA0 8 ?p USB_PID_SETUP]
    by (auto simp: bnd_eq_Inr_iff setup_bytes_def)
  have p: "[bmRequestType, bRequest, to_u8 wValue, to_u8 (drop_bit 8 wValue), to_u8 wIndex, to_u8 (drop_bit 8 wIndex),
      to_u8 wLength, to_u8 (drop_bit 8 wLength)] = ?p" by (simp add: setup_bytes_def le16_bytes_def)
  have n: "t_num_bytes t' = 14" using t(5) by (simp add: word_unat_eq_iff)
  let ?c = "c\<lparr>c_pool := (c_pool c)[i := t'], c_state := ST_SYNC, c_byte := 0, c_bit := 1, c_bus_state := kUsbControlSetup,
    c_wait := c_tick_bits c + USBDPI_INTERVAL_SETUP_STAGE, c_hostSt := HS_WAITACK\<rparr>"
  have "transfer_setup c (Some i) bmRequestType bRequest wValue wIndex wLength = Inr ?c"
    using i assms(2) t(1,2) n
    by (simp add: transfer_setup_def upd_tr_Some p transfer_send_def get_tr_Some)
  moreover have "transfer_lines t' = packet_lines False (token_bytes USB_PID_SETUP (c_dev_address c) 0) @ [lv True]
        @ packet_lines True (data_packet USB_PID_DATA0 ?p) @ [lv True]"
    using t(4-6) by (intro transfer_lines_transaction) (simp_all add: setup_bytes_def)
  ultimately show ?thesis
    using i assms(2) t(3,4) n by (intro exI [of _ ?c]) (simp add: ready_to_send_def tx_ok_def)
qed

section \<open>The host receives\<close>

lemma received_packet:
  assumes inv: "ctx_inv {} c" and get: "c_state c = ST_GET" and m: "mon_ready m"
    and i: "c_recving c = Some i \<or> c_recving c = None \<and> c_free c = Some i"
    and "pid = USB_PID_DATA0 \<or> pid = USB_PID_DATA1" "length p \<le> 70"
    and "list_all2 (presents M_DEVICE) ss (packet_lines tail (data_packet pid p))"
  shows "\<exists>m' t'. usb_run (Some usbdpi_data_callback) (\<lambda>pid c. c\<lparr>c_lastrxpid := pid\<rparr>) loglevel t ss m c =
      Inr (m', c\<lparr>c_lastrxpid := pid, c_recving := Some i, c_pool := (c_pool c)[i := t'],
                 c_free := (if c_recving c = None then t_next (c_pool c ! i) else c_free c)\<rparr>)
    \<and> mon_ready m' \<and> wf_transfer t' \<and> holds_packet t' (length p) \<and> payload t' = p
    \<and> take (length p + 3) (t_data t') = data_packet pid p"
proof -
  let ?ds = "tl (data_packet pid p)"
  obtain c1 where c1: "deliver (Some usbdpi_data_callback) set_lastrxpid pid ?ds c
      = deliver (Some usbdpi_data_callback) set_lastrxpid pid ?ds c1"
    "rx_ok c1 i" "wf_transfer (c_pool c1 ! i)"
    "\<And>t. rx c1 i pid t = c\<lparr>c_lastrxpid := pid, c_recving := Some i, c_pool := (c_pool c)[i := t],
                 c_free := (if c_recving c = None then t_next (c_pool c ! i) else c_free c)\<rparr>"
    using receiving_context [OF inv get i] by metis
  have dp: "data_packet pid p = pid # ?ds" "length ?ds = length p + 2"
    by (simp_all add: data_packet_def)
  have pid: "\<not> pid_bad pid" "data_pid pid"
    using assms(5) by (auto simp: pid_bad_def data_pid_def)
  obtain t' where 1: "deliver (Some usbdpi_data_callback) set_lastrxpid pid ?ds c = Inr (rx c1 i pid t')"
    "rx_holds t' 0 (pid # ?ds)"
    using deliver_received [OF c1(2,3), of ?ds pid] c1(1) dp(2) assms(6) pid(2) by auto
  obtain m' where 2: "usb_run (Some usbdpi_data_callback) set_lastrxpid loglevel t ss m c = Inr (m', rx c1 i pid t')"
    "mon_ready m'"
    using usb_run_packet [OF m pid(1), of ?ds loglevel M_DEVICE ss tail
        "Some usbdpi_data_callback" set_lastrxpid t] assms(6,7) dp 1(1) by auto
  have h: "wf_transfer t'" "t_data_start t' = 0" "unat (t_num_bytes t') = length p + 3"
    "take (length p + 3) (t_data t') = data_packet pid p"
    using rx_holdsD [OF 1(2)] dp by (auto simp del: One_nat_def)
  have "take (length p + 2) (drop 1 (t_data t')) = ?ds"
    using arg_cong [OF h(4), of tl] by (simp add: tl_take drop_Suc)
  from arg_cong [OF this, of "take (length p)"] have "take (length p) (drop 1 (t_data t')) = p"
    by (simp add: data_packet_def)
  then have "payload t' = p" by (simp add: payload_def h(3))
  then show ?thesis
    using 2 h unfolding c1(4) by (intro exI [of _ m'] exI [of _ t']) (simp add: holds_packet_def)
qed

section \<open>Properties\<close>

text \<open>
  C24: the bus monitor undoes NRZI coding and bit stuffing: whatever packet the host or the
  device drives, with a PID whose nibbles are complementary, its client is told of SYNC,
  the PID, every byte and the end of packet, in this order and of nothing else, and the
  monitor has the bytes and the PID and is ready for the next packet.
\<close>

theorem monitor_decodes_packet:
  assumes "mon_ready m" "\<not> pid_bad pid" "length ds < 256"
    and "has loglevel 1 \<or> \<not> has loglevel 2 \<or> length ds \<noteq> 1"
    and "list_all2 (presents drv) ss (packet_lines tail (pid # ds))"
  shows "\<exists>m'. (\<forall>c. usb_run cb sl loglevel t ss m c = bnd (deliver cb sl pid ds c) (\<lambda>c. Inr (m', c)))
    \<and> mon_ready m' \<and> m_lastpid m' = pid \<and> unat (m_byte m') = length ds \<and> take (length ds) (m_bytes m') = ds"
  using assms by (rule usb_run_packet)

text \<open>Differential signals of the device for a state of the pair, and a client that keeps a list.\<close>

definition device_signals :: "bool \<times> bool \<Rightarrow> sample" where
  "device_signals l = (False, 0, (if fst l then 0x400 else 0) OR (if snd l then 0x100 else 0) OR 0x280)"

lemma device_signals_present: "list_all2 (presents M_DEVICE) (map device_signals ls) ls"
  by (auto simp: list_all2_conv_all_nth device_signals_def device_drives_def swap_lines_def device_lines_def
      has_def prod_eq_iff)

definition list_client :: "(mon_data_type \<times> u8) list mon_callback" where
  "list_client = Some (\<lambda>type d c. Inr (c @ [(type, d)]))"

lemma init_ready: "usb_monitor_init True = Some m \<Longrightarrow> mon_ready m"
  by (auto simp: usb_monitor_init_def mon_ready_def monitor_ok_def run_ok_def low_bits_def)

theorem monitor_decodes_packet_witness:
  "\<exists>m'. usb_run list_client (\<lambda>_ c. c) 1 0 (map device_signals (packet_lines True [USB_PID_ACK]))
      (the (usb_monitor_init True)) []
    = Inr (m', [(UsbMon_DataType_Sync, 0), (UsbMon_DataType_PID, USB_PID_ACK), (UsbMon_DataType_EOP, 0)])"
proof -
  obtain m where m: "usb_monitor_init True = Some m" by (simp add: usb_monitor_init_def)
  show ?thesis
    using monitor_decodes_packet [where pid = USB_PID_ACK and ds = "[]" and loglevel = 1 and cb = list_client
        and sl = "\<lambda>_ c. c" and t = 0 and tail = True, OF init_ready [OF m] _ _ _ device_signals_present]
    by (auto simp: m pid_bad_def has_def deliver_def list_client_def data_callback_def)
qed

text \<open>
  C25: once a transfer has been handed over, the driver sends exactly the descriptor: SYNC,
  the bytes in NRZI coding with a zero stuffed after six ones, the end of packet and, when
  the descriptor has a data stage, the data packet after the token; then it is idle.  It
  changes nothing in the context but its own fields.
\<close>

theorem driver_sends_transfer:
  assumes "ready_to_send c i" "has d2p D2P_PU" "0 < t_num_bytes (c_pool c ! i)"
    and "t_data_start (c_pool c ! i) \<noteq> t_num_bytes (c_pool c ! i)"
  shows "\<exists>D L. drive_run (length (transfer_lines (c_pool c ! i))) d2p c =
    Inr (transfer_lines (c_pool c ! i),
      c\<lparr>c_driving := D, c_linebits := L, c_bit := 4, c_byte := unat (t_num_bytes (c_pool c ! i)), c_state := ST_IDLE\<rparr>)"
  using drive_transfer [OF assms] by (simp add: tx_def)

theorem driver_sends_transfer_witness:
  "\<exists>c D L. drive_run (length (packet_lines True [0xA5, 0x01, 0xE8]) + 1) D2P_DPPU c =
    Inr (packet_lines True [0xA5, 0x01, 0xE8] @ [lv True],
      c\<lparr>c_driving := D, c_linebits := L, c_bit := 4, c_byte := 3, c_state := ST_IDLE\<rparr>)"
proof -
  define t where "t = zero_transfer\<lparr>t_num_bytes := 3, t_data_start := 0xff, t_data := [0xA5, 0x01, 0xE8] @ replicate 70 0\<rparr>"
  define c where "c = zero_ctx\<lparr>c_pool := [t], c_sending := Some 0, c_state := ST_SYNC, c_bit := 1\<rparr>"
  have "ready_to_send c 0" "c_pool c ! 0 = t"
    by (simp_all add: c_def t_def ready_to_send_def tx_ok_def wf_transfer_def zero_transfer_def zero_ctx_def)
  moreover have "transfer_lines t = packet_lines True [0xA5, 0x01, 0xE8] @ [lv True]"
    by (simp add: transfer_lines_def t_def)
  moreover have "t_num_bytes t = 3" "t_data_start t = 0xff" by (simp_all add: t_def)
  ultimately show ?thesis
    using driver_sends_transfer [of c 0 D2P_DPPU] by (intro exI [of _ c]) (simp add: has_def)
qed

text \<open>
  C26: a SETUP request is on the bus as it was asked for: \<open>transfer_setup\<close> prepares it, the
  driver sends it, and a monitor that samples the pair reports the SETUP token with the
  device's address and endpoint 0, and the DATA0 packet with the eight bytes of the
  request, each 16-bit field little endian, and their CRC16.
\<close>

theorem setup_request_on_the_bus:
  assumes "ctx_inv {} c" "c_sending c = Some i" "has d2p D2P_PU"
  shows "\<exists>c' ls c''. transfer_setup c (Some i) bmRequestType bRequest wValue wIndex wLength = Inr c'
    \<and> drive_run (length ls) d2p c' = Inr (ls, c'') \<and> c_state c'' = ST_IDLE
    \<and> (\<forall>ss m cb sl loglevel t. mon_ready m \<longrightarrow> list_all2 (presents M_HOST) ss ls \<longrightarrow>
        (\<exists>m'. \<forall>x. usb_run cb sl loglevel t ss m x =
          bnd (deliver cb sl USB_PID_SETUP (tl (token_bytes USB_PID_SETUP (c_dev_address c) 0)) x) (\<lambda>x.
          bnd (deliver cb sl USB_PID_DATA0 (tl (data_packet USB_PID_DATA0
                 (setup_bytes bmRequestType bRequest wValue wIndex wLength))) x) (\<lambda>x. Inr (m', x)))))"
proof -
  let ?p = "setup_bytes bmRequestType bRequest wValue wIndex wLength"
  let ?tok = "token_bytes USB_PID_SETUP (c_dev_address c) 0" and ?dp = "data_packet USB_PID_DATA0 ?p"
  let ?ls = "packet_lines False ?tok @ [lv True] @ packet_lines True ?dp @ [lv True]"
  obtain c' where 1: "transfer_setup c (Some i) bmRequestType bRequest wValue wIndex wLength = Inr c'"
    "ready_to_send c' i" "t_num_bytes (c_pool c' ! i) = 14" "t_data_start (c_pool c' ! i) = 3"
    "transfer_lines (c_pool c' ! i) = ?ls"
    using setup_prepared [OF assms(1,2), of bmRequestType bRequest wValue wIndex wLength] by metis
  obtain D L where 2: "drive_run (length ?ls) d2p c' = Inr (?ls, tx c' D L 4 14 ST_IDLE)"
    using drive_transfer [OF 1(2) assms(3)] 1(3-5) by auto
  have cons: "?tok = USB_PID_SETUP # tl ?tok" "?dp = USB_PID_DATA0 # tl ?dp" "length (tl ?tok) = 2" "length (tl ?dp) = 10"
    by (simp_all add: token_bytes_def data_packet_def setup_bytes_def)
  have pid: "\<not> pid_bad USB_PID_SETUP" "\<not> pid_bad USB_PID_DATA0" by (simp_all add: pid_bad_def)
  have "\<exists>m'. \<forall>x. usb_run cb sl loglevel t ss m x =
      bnd (deliver cb sl USB_PID_SETUP (tl ?tok) x) (\<lambda>x. bnd (deliver cb sl USB_PID_DATA0 (tl ?dp) x) (\<lambda>x. Inr (m', x)))"
    if "mon_ready m" "list_all2 (presents M_HOST) ss ?ls" for ss m cb sl loglevel t
  proof -
    have "ss \<noteq> []" using that(2) by auto
    moreover have "mon_ready (m\<lparr>m_driver := M_HOST\<rparr>)" using that(1) by simp
    ultimately show ?thesis
      using mon_run_two_packets [OF _ pid, of "m\<lparr>m_driver := M_HOST\<rparr>" "tl ?tok" "tl ?dp" "has loglevel 1" "has loglevel 2"
          cb sl t False True, folded cons(1,2)] cons(3,4) usb_run_eq [OF that(2), of cb sl loglevel t m]
      by auto
  qed
  note sampled = this
  show ?thesis
    by (rule exI [of _ c'], rule exI [of _ ?ls], rule exI [of _ "tx c' D L 4 14 ST_IDLE"])
      (intro conjI 1(1) 2 tx_sel(5) allI impI sampled)
qed

text \<open>A created model whose first transfer is prepared.\<close>

lemma sending_example:
  obtains c i where "ctx_inv {} c" "c_sending c = Some i" "c_dev_address c = 0"
proof -
  let ?d = "usbdpi_create 0 True"
  have sel: "c_sending ?d = None" "c_dev_address ?d = 0"
    by (simp_all add: usbdpi_create_def usb_transfer_setup_def bus_reset_def zero_ctx_def Let_def case_prod_beta)
  obtain d where d: "transfer_alloc ?d = Inr (Some 0, d)" by (rule create_alloc) simp
  obtain p f where 1: "d = ?d\<lparr>c_free := f, c_pool := p\<rparr>" "ctx_inv {0} d"
    using d by (cases rule: alloc_cases [OF usbdpi_create_inv [of 0]]) auto
  have "ctx_inv {} (d\<lparr>c_sending := Some 0\<rparr>)"
    using 1 sel by (intro inv_adopt_sending) simp_all
  then show thesis using 1(1) sel by (intro that [of "d\<lparr>c_sending := Some 0\<rparr>" 0]) simp_all
qed

theorem setup_request_on_the_bus_witness:
  "\<exists>c i c' ls c''. transfer_setup c (Some i) 0 5 2 0 0 = Inr c'
    \<and> drive_run (length ls) D2P_DPPU c' = Inr (ls, c'') \<and> c_state c'' = ST_IDLE"
proof -
  obtain c i where c: "ctx_inv {} c" "c_sending c = Some i" "c_dev_address c = 0" by (rule sending_example)
  have "has D2P_DPPU D2P_PU" by (simp add: has_def)
  from setup_request_on_the_bus [OF c(1,2) this, of 0 5 2 0 0] show ?thesis by blast
qed

text \<open>
  C27: a data packet that the device sends while the model listens arrives unchanged in the
  descriptor that receives, which is the one in use or else the first of the free list: through
  NRZI decoding, bit unstuffing and the callback of the monitor the descriptor comes to hold
  the PID, the payload and the CRC16 of the packet, its data stage starts at the PID, and
  nothing else of the context changes but the last PID.
\<close>

theorem device_data_received:
  assumes inv: "ctx_inv {} c" and get: "c_state c = ST_GET" and m: "mon_ready m"
    and i: "c_recving c = Some i \<or> c_recving c = None \<and> c_free c = Some i"
    and "pid = USB_PID_DATA0 \<or> pid = USB_PID_DATA1" "length p \<le> 70"
    and "list_all2 (presents M_DEVICE) ss (packet_lines tail (data_packet pid p))"
  shows "\<exists>m' t'. usb_run (Some usbdpi_data_callback) (\<lambda>pid c. c\<lparr>c_lastrxpid := pid\<rparr>) loglevel t ss m c =
      Inr (m', c\<lparr>c_lastrxpid := pid, c_recving := Some i, c_pool := (c_pool c)[i := t'],
                 c_free := (if c_recving c = None then t_next (c_pool c ! i) else c_free c)\<rparr>)
    \<and> mon_ready m' \<and> wf_transfer t' \<and> holds_packet t' (length p) \<and> payload t' = p
    \<and> take (length p + 3) (t_data t') = data_packet pid p"
  using assms by (rule received_packet)

theorem device_data_received_witness:
  "\<exists>m' t'. usb_run (Some usbdpi_data_callback) (\<lambda>pid c. c\<lparr>c_lastrxpid := pid\<rparr>) 1 0
      (map device_signals (packet_lines True (data_packet USB_PID_DATA1 [0xFF, 0x7E])))
      (the (usb_monitor_init True))
      ((usbdpi_create 0 True)\<lparr>c_state := ST_GET\<rparr>) =
      Inr (m', (usbdpi_create 0 True)\<lparr>c_state := ST_GET, c_lastrxpid := USB_PID_DATA1, c_recving := Some 0,
        c_pool := (c_pool (usbdpi_create 0 True))[0 := t'], c_free := Some 1\<rparr>)
    \<and> payload t' = [0xFF, 0x7E]"
proof -
  obtain m where m: "usb_monitor_init True = Some m" by (simp add: usb_monitor_init_def)
  let ?d = "usbdpi_create 0 True"
  have inv: "ctx_inv {} (?d\<lparr>c_state := ST_GET\<rparr>)"
    using usbdpi_create_inv [of 0] by (simp add: ctx_inv_def held_def ctx_ok_def owns_def)
  note received = device_data_received [OF inv _ init_ready [OF m] _ _ _ device_signals_present, where pid = USB_PID_DATA1
      and p = "[0xFF, 0x7E]" and tail = True and loglevel = 1 and t = 0 and i = 0]
  have "c_free ?d = Some 0" "t_next (c_pool ?d ! 0) = Some 1" by code_simp+
  then show ?thesis
    using received create_sel(5) [of 0 True] by (auto simp: m)
qed

end
