(* ===== verification/System.thy ===== *)
theory System
  imports Diagnostics Link
begin

text \<open>
  The composition: what the simulator, through \<open>usbdpi.sv\<close>, can do with the model.  It
  creates the model, calls \<open>usbdpi_host_to_device\<close> on the clock and
  \<open>usbdpi_device_to_host\<close> when the device's signals change.  The device is arbitrary: the
  calls come in any order with any signals.
\<close>

section \<open>Calls and reachable states\<close>

datatype dpi_event = Clock u32 | Change u32

fun dpi_call :: "dpi_event \<Rightarrow> ctx \<Rightarrow> ctx res" where
  "dpi_call (Clock d2p) c = bnd (usbdpi_host_to_device c d2p) (\<lambda>(p2d, c). Inr c)"
| "dpi_call (Change d2p) c = usbdpi_device_to_host c d2p"

fun dpi_run :: "dpi_event list \<Rightarrow> ctx \<Rightarrow> ctx res" where
  "dpi_run [] c = Inr c"
| "dpi_run (e # es) c = bnd (dpi_call e c) (dpi_run es)"

inductive reachable :: "ctx \<Rightarrow> bool" where
  create: "reachable (usbdpi_create loglevel True)"
| call: "reachable c \<Longrightarrow> dpi_call e c = Inr c' \<Longrightarrow> reachable c'"

inductive_simps reachable_iff: "reachable c"

lemma dpi_call_inv: "ctx_inv {} c \<Longrightarrow> wp safe_error (dpi_call e c) (ctx_inv {})"
  by (cases e) (auto simp: case_prod_beta intro: usbdpi_device_to_host_inv
      intro!: wp_mono [OF usbdpi_host_to_device_inv])

lemma dpi_run_inv: "ctx_inv {} c \<Longrightarrow> wp safe_error (dpi_run es c) (ctx_inv {})"
proof (induction es arbitrary: c)
  case (Cons e es)
  show ?case
    by (simp, rule wp_mono [OF dpi_call_inv [OF Cons.prems]], rule Cons.IH)
qed simp

lemma reachable_inv: "reachable c \<Longrightarrow> ctx_inv {} c"
proof (induction rule: reachable.induct)
  case (create loglevel)
  show ?case by (rule usbdpi_create_inv)
next
  case (call c e c')
  from dpi_call_inv [OF call.IH, of e] call.hyps(2) show ?case by simp
qed

section \<open>Properties\<close>

text \<open>
  C1: whatever the device does, no sequence of calls makes the model follow a null pointer
  or walk a list of descriptors for ever; it can only stop at an assertion or leave an
  array.  After every sequence that returns, the invariant holds.
\<close>

theorem dpi_run_safe:
  "wp safe_error (dpi_run calls (usbdpi_create loglevel True)) (ctx_inv {})"
  by (rule dpi_run_inv [OF usbdpi_create_inv])

text \<open>
  C2: in every reachable state the free list and the queues of received packets are finite
  lists of descriptors, no descriptor is in two of them or twice in one, and the
  descriptors being sent and being received are different and in none of them.
\<close>

theorem reachable_ownership:
  assumes "reachable c"
  shows "\<exists>fl ls. lseg (c_pool c) (c_free c) fl
    \<and> list_all2 (lseg (c_pool c)) (map s_received (c_stream c)) ls
    \<and> distinct (fl @ concat ls)
    \<and> (\<forall>i. c_sending c = Some i \<longrightarrow> i < USBDPI_MAX_TRANSFERS \<and> i \<notin> set (fl @ concat ls) \<and> c_recving c \<noteq> Some i)
    \<and> (\<forall>i. c_recving c = Some i \<longrightarrow> i < USBDPI_MAX_TRANSFERS \<and> i \<notin> set (fl @ concat ls))"
proof -
  have inv: "ctx_inv {} c" using assms by (rule reachable_inv)
  then have "owns c (held c)" "c_sending c = None \<or> c_sending c \<noteq> c_recving c"
    by (simp_all add: ctx_inv_def)
  from this(1) obtain fl ls where 1: "lseg (c_pool c) (c_free c) fl"
    "list_all2 (lseg (c_pool c)) (map s_received (c_stream c)) ls"
    "distinct (fl @ concat ls)" "held c \<inter> set (fl @ concat ls) = {}" "held c \<subseteq> {..<32}"
    unfolding owns_def by (elim pool_okE)
  then show ?thesis
    using \<open>c_sending c = None \<or> c_sending c \<noteq> c_recving c\<close>
    by (intro exI [of _ fl] exI [of _ ls]) (auto simp: held_def)
qed

theorem reachable_ownership_witness:
  "\<exists>fl ls. lseg (c_pool (usbdpi_create 0 True)) (c_free (usbdpi_create 0 True)) fl
    \<and> list_all2 (lseg (c_pool (usbdpi_create 0 True))) (map s_received (c_stream (usbdpi_create 0 True))) ls
    \<and> distinct (fl @ concat ls)"
  using reachable_ownership [OF reachable.create [of 0]] by blast

text \<open>
  C22: in every reachable state at most two attempts at a control transfer without a response
  have been counted, the step of the test sequence fits its seven bits, no stream has more
  than three requests to resend left, and the toggles are DATA0 or DATA1.
\<close>

theorem reachable_bounds:
  assumes "reachable c"
  shows "c_num_tries c < USBDPI_MAX_TRIES \<and> c_step c \<le> 0x7f \<and> c_dev_address c < 0x80
    \<and> (\<forall>s \<in> set (c_stream c). s_nretries s \<le> 3 \<and> s_ep_in s < 0x10 \<and> s_ep_out s < 0x10)
    \<and> (\<forall>pid \<in> set (c_ep_in c) \<union> set (c_ep_out c). pid = USB_PID_DATA0 \<or> pid = USB_PID_DATA1)"
  using reachable_inv [OF assms] by (auto simp: ctx_inv_def ctx_ok_def list_all_iff stream_ok_def data_pid_def)

theorem reachable_bounds_witness:
  "c_num_tries (usbdpi_create 0 True) < USBDPI_MAX_TRIES \<and> c_step (usbdpi_create 0 True) \<le> 0x7f"
  using reachable_bounds [OF reachable.create [of 0]] by blast

text \<open>
  C21: a change of the device's signals is handled without an error in every reachable state:
  \<open>usbdpi_device_to_host\<close> fails no assertion, stays inside its arrays and returns.
\<close>

theorem device_to_host_total:
  assumes "reachable c"
  shows "\<exists>c'. usbdpi_device_to_host c d2p = Inr c' \<and> reachable c'"
proof -
  obtain c' where "usbdpi_device_to_host c d2p = Inr c'"
    using usbdpi_device_to_host_inv [OF reachable_inv [OF assms], of no_error d2p]
    unfolding wp_no_error_iff by blast
  then show ?thesis using reachable.call [OF assms, of "Change d2p"] by simp
qed

theorem device_to_host_total_witness:
  "\<exists>c'. usbdpi_device_to_host (usbdpi_create 0 True) D2P_DPPU = Inr c' \<and> reachable c'"
  by (rule device_to_host_total [OF reachable.create])

text \<open>
  C23: in every reachable state reading the diagnostics passes its assertions, and the words
  hold the state of the driver, the host and the bus, the step, the time in bits and the
  low eleven bits of the frame number in the fields from which they are displayed.
\<close>

theorem diags_fields_recovered:
  assumes "reachable c"
  shows "\<exists>d0 d1 d2. usbdpi_diags c = Inr [d0, d1, d2]
    \<and> take_bit 4 d0 = drv_state_code (c_state c)
    \<and> take_bit 5 (drop_bit 4 d0) = host_state_code (c_hostSt c)
    \<and> take_bit 11 (drop_bit 9 d0) = take_bit 11 (to_u32 (c_frame c))
    \<and> drop_bit 20 d0 OR push_bit 12 (take_bit 20 d1) = c_tick_bits c
    \<and> take_bit 5 (drop_bit 20 d1) = bus_state_code (c_bus_state c)
    \<and> drop_bit 25 d1 = c_step c
    \<and> take_bit 8 d2 = to_u32 (m_lastpid (the (c_mon c)))"
  by (rule diags_fields_inv [OF reachable_inv [OF assms]])

theorem diags_fields_recovered_witness:
  "\<exists>d0 d1 d2. usbdpi_diags (usbdpi_create 0 True) = Inr [d0, d1, d2] \<and> drop_bit 25 d1 = (0 :: u32)"
  using diags_fields_recovered [OF reachable.create [of 0]]
  by (auto simp: usbdpi_create_def usb_transfer_setup_def bus_reset_def Let_def case_prod_beta)

end
