(* ===== verification/Clocks.thy ===== *)
theory Clocks
  imports Link
begin

text \<open>
  The driver inside \<open>usbdpi_host_to_device\<close>: while a transfer is being sent, one call in four
  makes one step of the driver and the three others hold the pair; the monitor and the frame
  timer, which run in between, touch only their own fields.
\<close>

section \<open>The fields that are not the driver's\<close>

text \<open>The context after \<open>T\<close> clocks, with the monitor's and the frame timer's fields.\<close>

definition around :: "ctx \<Rightarrow> nat \<Rightarrow> monitor \<Rightarrow> u8 \<Rightarrow> bool \<Rightarrow> ctx" where
  "around c T m p f = c\<lparr>c_tick := of_nat T, c_tick_bits := drop_bit 2 (of_nat T), c_mon := Some m,
     c_lastrxpid := p, c_framepend := f\<rparr>"

lemma around_sel [simp]:
  "c_state (around c T m p f) = c_state c" "c_driving (around c T m p f) = c_driving c"
  "c_sending (around c T m p f) = c_sending c" "c_loglevel (around c T m p f) = c_loglevel c"
  "c_recovery_time (around c T m p f) = c_recovery_time c" "c_tick (around c T m p f) = of_nat T"
  "c_tick_bits (around c T m p f) = drop_bit 2 (of_nat T)" "c_mon (around c T m p f) = Some m"
  by (simp_all add: around_def)

lemma around_upd [simp]:
  "(around c T m p f)\<lparr>c_lastrxpid := p'\<rparr> = around c T m p' f" "(around c T m p f)\<lparr>c_mon := Some m'\<rparr> = around c T m' p f"
  "(around c T m p f)\<lparr>c_framepend := f'\<rparr> = around c T m p f'"
  by (simp_all add: around_def)

lemma around_tick:
  "(around c T m p f)\<lparr>c_tick := of_nat T', c_tick_bits := drop_bit 2 (of_nat T')\<rparr> = around c T' m p f"
  by (simp add: around_def)

section \<open>The driver\<close>

lemma around_drive_sel [simp]:
  "c_linebits (around c T m p f) = c_linebits c" "c_bit (around c T m p f) = c_bit c"
  "c_byte (around c T m p f) = c_byte c" "get_tr (around c T m p f) tr = get_tr c tr"
  "set_driving (around c T m p f) d2p v oe = set_driving c d2p v oe"
  "inv_driving (around c T m p f) d2p = inv_driving c d2p"
  by (simp_all add: around_def get_tr_def set_driving_def inv_driving_def)

lemma around_drive_upd [simp]:
  "(around c T m p f)\<lparr>c_driving := D\<rparr> = around (c\<lparr>c_driving := D\<rparr>) T m p f"
  "(around c T m p f)\<lparr>c_linebits := L\<rparr> = around (c\<lparr>c_linebits := L\<rparr>) T m p f"
  "(around c T m p f)\<lparr>c_bit := B\<rparr> = around (c\<lparr>c_bit := B\<rparr>) T m p f"
  "(around c T m p f)\<lparr>c_byte := N\<rparr> = around (c\<lparr>c_byte := N\<rparr>) T m p f"
  "(around c T m p f)\<lparr>c_state := S\<rparr> = around (c\<lparr>c_state := S\<rparr>) T m p f"
  by (simp_all add: around_def)

lemma get_tr_driving: "get_tr (c\<lparr>c_driving := D\<rparr>) tr = get_tr c tr"
  by (simp add: get_tr_def)

abbreviation lift :: "nat \<Rightarrow> monitor \<Rightarrow> u8 \<Rightarrow> bool \<Rightarrow> (bool \<times> ctx) res \<Rightarrow> (bool \<times> ctx) res" where
  "lift T m p f r \<equiv> bnd r (\<lambda>(b, c'). Inr (b, around c' T m p f))"

lemma drive_sync_around: "lift T m p f (Inr (drive_sync c d2p)) = Inr (drive_sync (around c T m p f) d2p)"
  by (simp add: drive_sync_def Let_def)

lemma drive_send_around: "lift T m p f (drive_send c d2p) = drive_send (around c T m p f) d2p"
  by (cases "c_sending c"; cases "get_tr c (c_sending c)")
    (simp_all add: drive_send_def Let_def bnd_def split: sum.split)

lemma drive_eop_around: "lift T m p f (drive_eop c d2p) = drive_eop (around c T m p f) d2p"
  by (cases "c_sending c"; cases "get_tr c (c_sending c)") (simp_all add: drive_eop_def Let_def get_tr_driving)

lemma host_drive_around:
  "transmitting (c_state c) \<Longrightarrow> host_drive (around c T m p f) d2p = lift T m p f (host_drive c d2p)"
  using drive_sync_around [where c = c and T = T and m = m and p = p and f = f and ?d2p.0 = d2p]
  by (cases "c_state c")
    (simp_all add: host_drive_def drive_send_around drive_eop_around drive_eop0_def)

lemma host_drive_frame:
  assumes "transmitting (c_state c)" "host_drive c d2p = Inr (b, c')"
  shows "c_loglevel c' = c_loglevel c" "c_recovery_time c' = c_recovery_time c"
  using assms
  by (cases "c_state c"; auto simp: host_drive_def drive_sync_def drive_send_def drive_eop0_def drive_eop_def Let_def
      bnd_eq_Inr_iff cassert_def split: if_splits)+

section \<open>The monitor while the host sends\<close>

lemma sending_client:
  "transmitting (c_state c) \<Longrightarrow> monitor_client usbdpi_data_callback (\<lambda>pid c. c\<lparr>c_lastrxpid := pid\<rparr>)
     (\<lambda>x. \<exists>p. x = around c T m p f) no_error"
  by unfold_locales (auto simp: usbdpi_data_callback_def)

lemma host_monitor_around:
  assumes "transmitting (c_state c)" "monitor_ok m" "has (c_loglevel c) 1 \<or> \<not> has (c_loglevel c) 2"
  shows "\<exists>m' p'. monitor_ok m' \<and> host_monitor (around c T m p f) d2p = Inr (around c T m' p' f)"
proof -
  have "wp no_error (usb_monitor (Some usbdpi_data_callback) (\<lambda>pid c. c\<lparr>c_lastrxpid := pid\<rparr>) (Some m)
      (c_loglevel c) (drop_bit 2 (of_nat T)) (c_state c \<noteq> ST_IDLE \<and> c_state c \<noteq> ST_GET)
      (c_driving c) d2p (around c T m p f)) (\<lambda>x. monitor_ok (fst x) \<and> (\<exists>p. snd x = around c T m p f))"
    by (rule monitor_client.monitor_keeps [OF sending_client [OF assms(1)] assms(2)]) (use assms(3) in auto)
  then show ?thesis
    by (fastforce simp: wp_no_error_iff host_monitor_def)
qed

section \<open>One call\<close>

lemma has_3_of_nat: "has (of_nat T :: u32) 3 \<longleftrightarrow> T mod 4 \<noteq> 0"
proof -
  have "(of_nat T :: u32) AND 3 = take_bit 2 (of_nat T)" by (simp add: take_bit_eq_mask mask_eq_exp_minus_1)
  also have "\<dots> = of_nat (T mod 4)" by (subst take_bit_of_nat) (simp add: take_bit_eq_mod)
  finally have "(of_nat T :: u32) AND 3 = of_nat (T mod 4)" .
  moreover have "unat (of_nat (T mod 4) :: u32) = T mod 4" by (intro unat_of_nat_small) (simp add: less_le_trans [of _ 4])
  ultimately show ?thesis by (metis has_def unat_0 unat_eq_0)
qed

lemma call_start:
  "usbdpi_host_to_device (around c T m p f) d2p =
     (let c1 = around c (T + 1) m p f in
      if (T + 1) mod 4 \<noteq> 0 then Inr (to_u8 (c_driving c), c1)
      else bnd (host_monitor c1 d2p) (\<lambda>c2. bnd (host_bit c2 d2p (c_driving c)) (\<lambda>c3. Inr (to_u8 (c_driving c3), c3))))"
proof -
  have "(around c T m p f)\<lparr>c_tick := of_nat T + 1, c_tick_bits := drop_bit 2 (of_nat T + 1)\<rparr> = around c (T + 1) m p f"
    using around_tick [where T' = "T + 1"] by (simp add: add.commute)
  then show ?thesis
    using has_3_of_nat [of "T + 1"] by (simp add: usbdpi_host_to_device_def Let_def add.commute)
qed

lemma host_frame_around:
  "transmitting (c_state c) \<Longrightarrow> \<exists>f'. host_frame (around c T m p f) = Inr (around c T m p f')"
  by (cases "c_state c") (auto simp: host_frame_def intro: exI [of _ f])

lemma call_bit:
  assumes "transmitting (c_state c)" "monitor_ok m" "has (c_loglevel c) 1 \<or> \<not> has (c_loglevel c) 2"
    and "\<not> has (c_loglevel c) LOG_BIT" "has d2p D2P_PU" "(T + 1) mod 4 = 0" "T + 1 < 2 ^ 32"
    and "640 < T" "unat (c_recovery_time c) \<le> T" "host_drive c d2p = Inr (b, c')"
  shows "\<exists>m' p' f'. monitor_ok m' \<and>
    usbdpi_host_to_device (around c T m p f) d2p = Inr (to_u8 (c_driving c'), around c' (T + 1) m' p' f')"
proof -
  obtain m' p' where 1: "monitor_ok m'" "host_monitor (around c (T + 1) m p f) d2p = Inr (around c (T + 1) m' p' f)"
    using host_monitor_around [OF assms(1-3)] by blast
  obtain f' where 2: "host_frame (around c (T + 1) m' p' f) = Inr (around c (T + 1) m' p' f')"
    using host_frame_around [OF assms(1)] by blast
  have T: "unat (of_nat (T + 1) :: u32) = T + 1" using assms(7) by (intro unat_of_nat_small) simp
  then have "unat (drop_bit 2 (of_nat (T + 1)) :: u32) = (T + 1) div 4"
    unfolding unat_drop_bit_eq by (simp only: drop_bit_eq_div) simp
  then have s: "drop_bit 2 (of_nat (T + 1)) \<noteq> (160 :: u32)" using assms(6,8) by (auto simp: word_unat_eq_iff)
  have r: "\<not> of_nat (T + 1) < c_recovery_time c" using T assms(9) by (simp add: word_less_nat_alt)
  have "host_bit (around c (T + 1) m' p' f) d2p (c_driving c) = Inr (around c' (T + 1) m' p' f')"
    using s r 2 assms(4,5) host_drive_around [OF assms(1), of "T + 1" m' p' f' d2p] assms(10)
      host_drive_frame [OF assms(1,10)]
    by (simp add: host_bit_def host_active_def Let_def has_def del: of_nat_add of_nat_Suc)
  then show ?thesis
    using 1 assms(6) by (intro exI [of _ m'] exI [of _ p'] exI [of _ f']) (simp add: call_start Let_def)
qed

section \<open>A run of calls\<close>

text \<open>\<open>n\<close> calls with the same signals of the device, and the values they return.\<close>

fun clocks :: "nat \<Rightarrow> u32 \<Rightarrow> ctx \<Rightarrow> (u8 list \<times> ctx) res" where
  "clocks 0 d2p c = Inr ([], c)"
| "clocks (Suc n) d2p c =
     bnd (usbdpi_host_to_device c d2p) (\<lambda>(p2d, c).
     bnd (clocks n d2p c) (\<lambda>(ps, c'). Inr (p2d # ps, c')))"

text \<open>The state of the pair that a returned value shows.\<close>

abbreviation shown :: "u32 \<Rightarrow> u8 \<Rightarrow> bool \<times> bool" where
  "shown d2p p \<equiv> bus_lines d2p (to_u32 p)"

lemma shown_driving [simp]: "shown d2p (to_u8 (D :: u32)) = bus_lines d2p D"
  by (simp add: bus_lines_def pins bit_simps)

lemma clocks_hold:
  "(T + 1) mod 4 \<noteq> 0 \<Longrightarrow> clocks (Suc n) d2p (around c T m p f) =
     bnd (clocks n d2p (around c (T + 1) m p f)) (\<lambda>(ps, c'). Inr (to_u8 (c_driving c) # ps, c'))"
  by (simp add: call_start Let_def del: Suc_eq_plus1)

lemma clocks_bit:
  assumes "transmitting (c_state c)" "monitor_ok m" "has (c_loglevel c) 1 \<or> \<not> has (c_loglevel c) 2"
    and "\<not> has (c_loglevel c) LOG_BIT" "has d2p D2P_PU" "T mod 4 = 3" "T + 1 < 2 ^ 32"
    and "640 < T" "unat (c_recovery_time c) \<le> T" "host_drive c d2p = Inr (b, c')"
  shows "\<exists>m' p' f'. monitor_ok m' \<and> (\<forall>n. clocks (4 + n) d2p (around c T m p f) =
    bnd (clocks n d2p (around c' (T + 4) m' p' f')) (\<lambda>(ps, c2). Inr (replicate 4 (to_u8 (c_driving c')) @ ps, c2)))"
proof -
  have T: "(T + 1) mod 4 = 0" "(T + 1 + 1) mod 4 \<noteq> 0" "(T + 1 + 1 + 1) mod 4 \<noteq> 0" "(T + 1 + 1 + 1 + 1) mod 4 \<noteq> 0"
    using assms(6) by presburger+
  obtain m' p' f' where 1: "monitor_ok m'"
    "usbdpi_host_to_device (around c T m p f) d2p = Inr (to_u8 (c_driving c'), around c' (T + 1) m' p' f')"
    using call_bit [OF assms(1-5) T(1) assms(7-10)] by blast
  have a: "T + 1 + 1 + 1 + 1 = T + 4" by simp
  have "clocks (4 + n) d2p (around c T m p f) =
      bnd (clocks n d2p (around c' (T + 4) m' p' f')) (\<lambda>(ps, c2). Inr (replicate 4 (to_u8 (c_driving c')) @ ps, c2))" for n
  proof -
    have "clocks (4 + n) d2p (around c T m p f) = bnd (clocks (Suc (Suc (Suc n))) d2p (around c' (T + 1) m' p' f'))
        (\<lambda>(ps, c2). Inr (to_u8 (c_driving c') # ps, c2))"
      using 1(2) by (simp add: numeral_eq_Suc)
    then show ?thesis
      unfolding clocks_hold [OF T(2)] clocks_hold [OF T(3)] clocks_hold [OF T(4)] a
      by (cases "clocks n d2p (around c' (T + 4) m' p' f')") (auto simp: numeral_eq_Suc)
  qed
  then show ?thesis using 1(1) by blast
qed

lemma clocks_drive:
  assumes "drive_run n d2p c = Inr (ls, c1)" "monitor_ok m" "has (c_loglevel c) 1 \<or> \<not> has (c_loglevel c) 2"
    and "\<not> has (c_loglevel c) LOG_BIT" "has d2p D2P_PU" "T mod 4 = 3" "T + 4 * n < 2 ^ 32"
    and "640 < T" "unat (c_recovery_time c) \<le> T"
  shows "\<exists>ps m' p' f'. clocks (4 * n) d2p (around c T m p f) = Inr (ps, around c1 (T + 4 * n) m' p' f')
    \<and> monitor_ok m' \<and> map (shown d2p) ps = concat (map (replicate 4) ls)"
  using assms
proof (induction n arbitrary: c ls T m p f)
  case 0
  then show ?case by (intro exI [of _ "[]"]) auto
next
  case (Suc n)
  obtain b c2 ls' where 1: "transmitting (c_state c)" "host_drive c d2p = Inr (b, c2)"
    "drive_run n d2p c2 = Inr (ls', c1)" "ls = bus_lines d2p (c_driving c2) # ls'"
    using Suc.prems(1) by (auto simp: bnd_eq_Inr_iff cassert_def split: if_splits)
  note frame = host_drive_frame [OF 1(1,2)]
  have "T + 1 < 2 ^ 32" using Suc.prems(7) by simp
  then obtain m2 p2 f2 where 2: "monitor_ok m2" "\<And>n. clocks (4 + n) d2p (around c T m p f) =
    bnd (clocks n d2p (around c2 (T + 4) m2 p2 f2)) (\<lambda>(ps, c3). Inr (replicate 4 (to_u8 (c_driving c2)) @ ps, c3))"
    using clocks_bit [OF 1(1) Suc.prems(2-6) _ Suc.prems(8,9) 1(2)] by blast
  have T: "(T + 4) mod 4 = 3" "T + 4 + 4 * n < 2 ^ 32" "640 < T + 4" "unat (c_recovery_time c2) \<le> T + 4"
    using Suc.prems(6-9) frame by simp_all
  obtain ps m' p' f' where 3: "clocks (4 * n) d2p (around c2 (T + 4) m2 p2 f2) = Inr (ps, around c1 (T + 4 + 4 * n) m' p' f')"
    "monitor_ok m'" "map (shown d2p) ps = concat (map (replicate 4) ls')"
    using Suc.IH [OF 1(3) 2(1) _ _ Suc.prems(5) T] Suc.prems(3,4) frame by metis
  have "clocks (4 * Suc n) d2p (around c T m p f) =
      Inr (replicate 4 (to_u8 (c_driving c2)) @ ps, around c1 (T + 4 * Suc n) m' p' f')"
    using 2(2) [of "4 * n"] 3(1) by (simp add: add.assoc)
  moreover have "map (shown d2p) (replicate 4 (to_u8 (c_driving c2)) @ ps) = concat (map (replicate 4) ls)"
    using 3(3) 1(4) by (simp add: map_replicate)
  ultimately show ?case using 3(2) by blast
qed

section \<open>Properties\<close>

text \<open>
  C28: \<open>usbdpi_host_to_device\<close>, called four times for every bit of a transfer that has been
  handed over, returns values that show SYNC, the coded bytes and the end of packet of the
  token, and of the data packet if there is one, each state of the pair for four calls.  The
  monitor and the frame timer run in between; the transfer cannot be disturbed by them, by
  the device's signals or by the end of the frame, and at its end the driver is idle and the
  pool, the streams and the state of the test are as they were.
\<close>

theorem clocks_send_transfer:
  assumes "ready_to_send c i" "0 < t_num_bytes (c_pool c ! i)"
    and "t_data_start (c_pool c ! i) \<noteq> t_num_bytes (c_pool c ! i)"
    and "c_mon c = Some m" "monitor_ok m" "has (c_loglevel c) 1 \<or> \<not> has (c_loglevel c) 2"
    and "\<not> has (c_loglevel c) LOG_BIT" "has d2p D2P_PU"
    and "c_tick_bits c = drop_bit 2 (c_tick c)" "unat (c_tick c) mod 4 = 3" "640 < c_tick c"
    and "unat (c_tick c) + 4 * length (transfer_lines (c_pool c ! i)) < 2 ^ 32" "c_recovery_time c \<le> c_tick c"
  shows "\<exists>ps D L m' p f. clocks (4 * length (transfer_lines (c_pool c ! i))) d2p c =
      Inr (ps, c\<lparr>c_driving := D, c_linebits := L, c_bit := 4, c_byte := unat (t_num_bytes (c_pool c ! i)),
        c_state := ST_IDLE,
        c_tick := c_tick c + of_nat (4 * length (transfer_lines (c_pool c ! i))),
        c_tick_bits := drop_bit 2 (c_tick c + of_nat (4 * length (transfer_lines (c_pool c ! i)))),
        c_mon := Some m', c_lastrxpid := p, c_framepend := f\<rparr>)
    \<and> map (shown d2p) ps = concat (map (replicate 4) (transfer_lines (c_pool c ! i)))"
proof -
  let ?t = "c_pool c ! i" and ?T = "unat (c_tick c)"
  obtain D L where 1: "drive_run (length (transfer_lines ?t)) d2p c =
    Inr (transfer_lines ?t, tx c D L 4 (unat (t_num_bytes ?t)) ST_IDLE)"
    using drive_transfer [OF assms(1,8,2,3)] by blast
  have c: "around c ?T m (c_lastrxpid c) (c_framepend c) = c"
    using assms(4,9) by (simp add: around_def)
  have T: "640 < ?T" "unat (c_recovery_time c) \<le> ?T"
    using assms(11,13) by (simp_all add: word_less_nat_alt word_le_nat_alt)
  obtain ps m' p f where 2: "clocks (4 * length (transfer_lines ?t)) d2p c =
      Inr (ps, around (tx c D L 4 (unat (t_num_bytes ?t)) ST_IDLE) (?T + 4 * length (transfer_lines ?t)) m' p f)"
    "map (shown d2p) ps = concat (map (replicate 4) (transfer_lines ?t))"
    using clocks_drive [OF 1 assms(5-8,10,12) T, of "c_lastrxpid c" "c_framepend c"] unfolding c by blast
  show ?thesis
    by (rule exI [of _ ps], rule exI [of _ D], rule exI [of _ L], rule exI [of _ m'], rule exI [of _ p], rule exI [of _ f])
      (use 2 in \<open>simp add: around_def tx_def\<close>)
qed

theorem clocks_send_transfer_witness:
  "\<exists>c ps c'. clocks 144 D2P_DPPU c = Inr (ps, c') \<and> c_state c' = ST_IDLE
    \<and> map (shown D2P_DPPU) ps = concat (map (replicate 4) (packet_lines True [0xA5, 0x01, 0xE8] @ [lv True]))"
proof -
  define t where "t = zero_transfer\<lparr>t_num_bytes := 3, t_data_start := 0xff, t_data := [0xA5, 0x01, 0xE8] @ replicate 70 0\<rparr>"
  obtain m where m: "usb_monitor_init True = Some m" by (simp add: usb_monitor_init_def)
  define c where "c = zero_ctx\<lparr>c_pool := [t], c_sending := Some 0, c_state := ST_SYNC, c_bit := 1, c_tick := 643,
    c_tick_bits := 160, c_mon := Some m, c_loglevel := 1\<rparr>"
  have c: "ready_to_send c 0" "c_pool c ! 0 = t" "t_num_bytes t = 3" "t_data_start t = 0xff"
    "c_mon c = Some m" "c_loglevel c = 1" "c_tick c = 643" "c_tick_bits c = 160" "c_recovery_time c = 0"
    by (simp_all add: c_def t_def ready_to_send_def tx_ok_def wf_transfer_def zero_transfer_def zero_ctx_def)
  have ls: "transfer_lines t = packet_lines True [0xA5, 0x01, 0xE8] @ [lv True]"
    by (simp add: transfer_lines_def t_def)
  have len: "length (packet_lines True [0xA5, 0x01, 0xE8] @ [lv True]) = 36" by code_simp
  have "monitor_ok m" using init_ready [OF m] by (simp add: mon_ready_def)
  then have "\<exists>ps c'. clocks 144 D2P_DPPU c = Inr (ps, c') \<and> c_state c' = ST_IDLE
    \<and> map (shown D2P_DPPU) ps = concat (map (replicate 4) (packet_lines True [0xA5, 0x01, 0xE8] @ [lv True]))"
    using clocks_send_transfer [of c 0 m D2P_DPPU] c len unfolding c(2) ls len by (auto simp: has_def)
  then show ?thesis by (rule exI [of _ c])
qed

end
