(* ===== verification/Reception.thy ===== *)
theory Reception
  imports System Clocks
begin

text \<open>
  A packet of the device through the entry points: while the host model listens, every bit
  time is a change of the device's signals and four clocks.  What the two entry points do
  beside the monitor and its callback stays in fields that these do not read, so the run of
  the monitor in \<open>Link\<close> is the run of the whole model.
\<close>

section \<open>The monitor and a larger state of its client\<close>

text \<open>A map of client states that commutes with the client's operations commutes with the monitor.\<close>

lemma data_callback_map:
  assumes "\<And>type d c. cb type d (h c) = bnd (cb type d c) (\<lambda>c. Inr (h c))"
  shows "data_callback (Some cb) type d (h c) = bnd (data_callback (Some cb) type d c) (\<lambda>c. Inr (h c))"
  by (simp add: data_callback_def assms)

abbreviation map_client :: "('c \<Rightarrow> 'd) \<Rightarrow> (monitor \<times> 'c) res \<Rightarrow> (monitor \<times> 'd) res" where
  "map_client h r \<equiv> bnd r (\<lambda>(m, c). Inr (m, h c))"

lemma mon_complete_map:
  assumes "\<And>type d c. cb type d (h c) = bnd (cb type d c) (\<lambda>c. Inr (h c))" "\<And>p c. sl p (h c) = h (sl p c)"
  shows "mon_complete (Some cb) sl m log t (h c) = map_client h (mon_complete (Some cb) sl m log t c)"
  by (cases "m_state m")
    (simp_all add: mon_complete_def Let_def bnd_assoc assms(2) data_callback_map [where cb = cb, OF assms(1)])

lemma mon_line_map:
  assumes "\<And>type d c. cb type d (h c) = bnd (cb type d c) (\<lambda>c. Inr (h c))" "\<And>p c. sl p (h c) = h (sl p c)"
  shows "mon_line (Some cb) sl m log compact t l (h c) = map_client h (mon_line (Some cb) sl m log compact t l c)"
proof -
  have "mon_eop (Some cb) m log compact t (h c) = map_client h (mon_eop (Some cb) m log compact t c)" for m
    by (simp add: mon_eop_def Let_def bnd_assoc data_callback_map [where cb = cb, OF assms(1)])
  moreover have "mon_bit (Some cb) sl m log t (h c) = map_client h (mon_bit (Some cb) sl m log t c)" for m
    by (simp add: mon_bit_def Let_def mon_complete_map [where cb = cb and sl = sl, OF assms])
  ultimately show ?thesis
    by (simp add: mon_line_def Let_def bnd_assoc data_callback_map [where cb = cb, OF assms(1)])
qed

lemma usb_monitor_map:
  assumes "\<And>type d c. cb type d (h c) = bnd (cb type d c) (\<lambda>c. Inr (h c))" "\<And>p c. sl p (h c) = h (sl p c)"
  shows "usb_monitor (Some cb) sl (Some m) ll t hdrive p d (h c) = map_client h (usb_monitor (Some cb) sl (Some m) ll t hdrive p d c)"
  by (cases "mon_sample m (has ll 2) t hdrive p d")
    (simp add: usb_monitor_def Let_def mon_line_map [where cb = cb and sl = sl, OF assms] split: option.split)

section \<open>The fields beside the reception\<close>

definition beside :: "nat \<Rightarrow> monitor \<Rightarrow> bool \<Rightarrow> bus_state \<Rightarrow> ctx \<Rightarrow> ctx" where
  "beside T m f B c = c\<lparr>c_tick := of_nat T, c_tick_bits := drop_bit 2 (of_nat T), c_mon := Some m,
     c_framepend := f, c_bus_state := B\<rparr>"

lemma beside_sel [simp]:
  "c_state (beside T m f B c) = c_state c" "c_driving (beside T m f B c) = c_driving c"
  "c_recving (beside T m f B c) = c_recving c" "c_loglevel (beside T m f B c) = c_loglevel c"
  "c_recovery_time (beside T m f B c) = c_recovery_time c" "c_tick (beside T m f B c) = of_nat T"
  "c_tick_bits (beside T m f B c) = drop_bit 2 (of_nat T)" "c_mon (beside T m f B c) = Some m"
  "c_last_pu (beside T m f B c) = c_last_pu c" "c_free (beside T m f B c) = c_free c"
  "c_pool (beside T m f B c) = c_pool c" "get_tr (beside T m f B c) tr = get_tr c tr"
  by (simp_all add: beside_def get_tr_def)

lemma beside_upd [simp]:
  "(beside T m f B c)\<lparr>c_lastrxpid := p\<rparr> = beside T m f B (c\<lparr>c_lastrxpid := p\<rparr>)"
  "(beside T m f B c)\<lparr>c_recving := r\<rparr> = beside T m f B (c\<lparr>c_recving := r\<rparr>)"
  "(beside T m f B c)\<lparr>c_free := g, c_pool := ps\<rparr> = beside T m f B (c\<lparr>c_free := g, c_pool := ps\<rparr>)"
  "(beside T m f B c)\<lparr>c_pool := ps\<rparr> = beside T m f B (c\<lparr>c_pool := ps\<rparr>)"
  "(beside T m f B c)\<lparr>c_mon := Some m'\<rparr> = beside T m' f B c" "(beside T m f B c)\<lparr>c_framepend := f'\<rparr> = beside T m f' B c"
  "(beside T m f B c)\<lparr>c_bus_state := B'\<rparr> = beside T m f B' c"
  by (simp_all add: beside_def)

lemma upd_tr_beside: "upd_tr (beside T m f B c) tr g = bnd (upd_tr c tr g) (\<lambda>c. Inr (beside T m f B c))"
  by (simp add: upd_tr_def bnd_assoc)

lemma transfer_alloc_beside:
  "transfer_alloc (beside T m f B c) = bnd (transfer_alloc c) (\<lambda>(r, c). Inr (r, beside T m f B c))"
  by (simp add: transfer_alloc_def bnd_assoc split: option.split)

lemma callback_beside:
  "usbdpi_data_callback type d (beside T m f B c) = bnd (usbdpi_data_callback type d c) (\<lambda>c. Inr (beside T m f B c))"
  by (simp add: usbdpi_data_callback_def Let_def bnd_assoc transfer_alloc_beside upd_tr_beside split_def)

text \<open>What the reception of an item leaves alone.\<close>

definition listening :: "ctx \<Rightarrow> ctx \<Rightarrow> bool" where
  "listening c c' \<longleftrightarrow> c_state c' = c_state c \<and> c_driving c' = c_driving c \<and> c_loglevel c' = c_loglevel c
     \<and> c_recovery_time c' = c_recovery_time c \<and> c_last_pu c' = c_last_pu c"

lemma listening_refl [simp]: "listening c c"
  by (simp add: listening_def)

lemma listening_trans: "listening c c' \<Longrightarrow> listening c' c'' \<Longrightarrow> listening c c''"
  by (simp add: listening_def)

lemma listening_lastrxpid [simp]: "listening c (c'\<lparr>c_lastrxpid := p\<rparr>) = listening c c'"
  by (simp add: listening_def)

lemma listening_upd_tr: "upd_tr c tr g = Inr c' \<Longrightarrow> listening c c'"
  by (auto simp: upd_tr_def bnd_eq_Inr_iff listening_def)

lemma listening_alloc: "transfer_alloc c = Inr (r, c') \<Longrightarrow> listening c (c'\<lparr>c_recving := r'\<rparr>)"
  by (auto simp: transfer_alloc_def bnd_eq_Inr_iff listening_def split: option.splits)

lemma callback_listening: "usbdpi_data_callback type d c = Inr c' \<Longrightarrow> listening c c'"
proof (cases "c_state c = ST_GET")
  case True
  assume "usbdpi_data_callback type d c = Inr c'"
  then obtain c1 t where 1: "(if c_recving c = None then bnd (transfer_alloc c) (\<lambda>(tr, c). Inr (c\<lparr>c_recving := tr\<rparr>))
      else Inr c) = Inr c1" "upd_tr c1 (c_recving c1) (\<lambda>_. Inr t) = Inr c'"
    using True unfolding usbdpi_data_callback_def Let_def bnd_eq_Inr_iff by (auto simp: bnd_eq_Inr_iff simp del: upd_tr_def)
  have "listening c c1"
    using 1(1) by (auto simp: bnd_eq_Inr_iff listening_alloc split: if_splits)
  then show ?thesis using listening_upd_tr [OF 1(2)] by (rule listening_trans)
qed (simp add: usbdpi_data_callback_def)

lemma listening_client:
  "monitor_client usbdpi_data_callback (\<lambda>pid c. c\<lparr>c_lastrxpid := pid\<rparr>) (listening c) any_error"
  by unfold_locales (auto simp: wp_any_error_iff intro: listening_trans callback_listening)

lemma monitor_listening:
  assumes "monitor_ok m" "usb_monitor (Some usbdpi_data_callback) (\<lambda>pid c. c\<lparr>c_lastrxpid := pid\<rparr>) (Some m)
      ll t hdrive p d c = Inr (m', c')"
  shows "monitor_ok m'" "listening c c'"
  using monitor_client.monitor_keeps [OF listening_client [of c] assms(1) listening_refl, of ll t hdrive p d] assms(2)
  by simp_all

section \<open>One bit time\<close>

abbreviation rx_monitor :: "monitor \<Rightarrow> u32 \<Rightarrow> u32 \<Rightarrow> u32 \<Rightarrow> ctx \<Rightarrow> (monitor \<times> ctx) res" where
  "rx_monitor m t p d c \<equiv> usb_monitor (Some usbdpi_data_callback) (\<lambda>pid c. c\<lparr>c_lastrxpid := pid\<rparr>) (Some m)
     (c_loglevel c) t False p d c"

lemma rx_monitor_beside:
  "usb_monitor (Some usbdpi_data_callback) (\<lambda>pid c. c\<lparr>c_lastrxpid := pid\<rparr>) (Some m) (c_loglevel c) t False p d
     (beside T m0 f B c) = map_client (beside T m0 f B) (rx_monitor m t p d c)"
  by (rule usb_monitor_map) (simp_all add: callback_beside)

lemma device_drives_enables: "device_drives d \<Longrightarrow> has d (D2P_DP_EN OR D2P_DN_EN OR D2P_D_EN)"
proof -
  have o: "has d (a OR b) \<longleftrightarrow> has d a \<or> has d b" for a b :: u32
    by (simp add: has_def bit.conj_disj_distrib or_eq_0_iff)
  show "device_drives d \<Longrightarrow> ?thesis" unfolding o device_drives_def by blast
qed

lemma change_beside:
  assumes "c_state c = ST_GET" "device_drives d" "d AND D2P_PU = c_last_pu c" "\<not> has (c_loglevel c) LOG_BIT"
  shows "\<exists>B'. usbdpi_device_to_host (beside T m f B c) d = Inr (beside T m f B' c)"
  using assms device_drives_enables [OF assms(2)]
  by (auto simp: usbdpi_device_to_host_def Let_def)

lemma hold_beside:
  "(T + 1) mod 4 \<noteq> 0 \<Longrightarrow> usbdpi_host_to_device (beside T m f B c) d = Inr (to_u8 (c_driving c), beside (T + 1) m f B c)"
  using has_3_of_nat [of "T + 1"]
  by (simp add: usbdpi_host_to_device_def Let_def add.commute) (simp add: beside_def)

lemma bit_beside:
  assumes "c_state c = ST_GET" "\<not> has (c_loglevel c) LOG_BIT" "monitor_ok m" "has d D2P_PU"
    and "(T + 1) mod 4 = 0" "T + 1 < 2 ^ 32" "640 < T" "unat (c_recovery_time c) \<le> T"
    and "rx_monitor m (drop_bit 2 (of_nat (T + 1))) (c_driving c) d c = Inr (m', c')"
  shows "\<exists>f'. usbdpi_host_to_device (beside T m f B c) d = Inr (to_u8 (c_driving c'), beside (T + 1) m' f' B c')"
proof -
  note l = monitor_listening(2) [OF assms(3,9), unfolded listening_def]
  have c: "(beside T m f B c)\<lparr>c_tick := of_nat T + 1, c_tick_bits := drop_bit 2 (of_nat T + 1)\<rparr> = beside (T + 1) m f B c"
    by (simp add: beside_def add.commute)
  have 1: "host_monitor (beside (T + 1) m f B c) d = Inr (beside (T + 1) m' f B c')"
    using assms(1,9) by (simp add: host_monitor_def rx_monitor_beside del: of_nat_add of_nat_Suc)
  have T: "unat (of_nat (T + 1) :: u32) = T + 1" using assms(6) by (intro unat_of_nat_small) simp
  then have "unat (drop_bit 2 (of_nat (T + 1)) :: u32) = (T + 1) div 4"
    unfolding unat_drop_bit_eq by (simp only: drop_bit_eq_div) simp
  then have s: "drop_bit 2 (of_nat (T + 1)) \<noteq> (160 :: u32)" using assms(5,7) by (auto simp: word_unat_eq_iff)
  have r: "\<not> of_nat (T + 1) < c_recovery_time c'" using T assms(8) l by (simp add: word_less_nat_alt)
  have "\<exists>f'. host_frame (beside (T + 1) m' f B c') = Inr (beside (T + 1) m' f' B c')"
    using l assms(1) by (auto simp: host_frame_def intro: exI [of _ f])
  then obtain f' where 2: "host_frame (beside (T + 1) m' f B c') = Inr (beside (T + 1) m' f' B c')" by blast
  have "host_bit (beside (T + 1) m' f B c') d (c_driving c) = Inr (beside (T + 1) m' f' B c')"
    using s r 2 assms(1,2,4) l
    by (simp add: host_bit_def host_active_def host_drive_def Let_def has_def del: of_nat_add of_nat_Suc)
  then show ?thesis
    using 1 c has_3_of_nat [of "T + 1"] assms(5)
    by (intro exI [of _ f']) (simp add: usbdpi_host_to_device_def Let_def add.commute)
qed

text \<open>The calls of one bit time, and of a sequence of them.\<close>

definition bit_calls :: "u32 \<Rightarrow> dpi_event list" where
  "bit_calls d = Change d # replicate 4 (Clock d)"

lemma dpi_run_append: "dpi_run (es @ es') c = bnd (dpi_run es c) (dpi_run es')"
proof (induction es arbitrary: c)
  case (Cons e es)
  have "dpi_run (es @ es') = (\<lambda>c. bnd (dpi_run es c) (dpi_run es'))" by (rule ext) (rule Cons.IH)
  then show ?case by (simp add: bnd_assoc)
qed simp

lemma bit_calls_beside:
  assumes "c_state c = ST_GET" "\<not> has (c_loglevel c) LOG_BIT" "monitor_ok m" "has d D2P_PU"
    and "T mod 4 = 3" "T + 1 < 2 ^ 32" "640 < T" "unat (c_recovery_time c) \<le> T"
    and "device_drives d" "d AND D2P_PU = c_last_pu c"
    and "rx_monitor m (drop_bit 2 (of_nat (T + 1))) (c_driving c) d c = Inr (m', c')"
  shows "\<exists>f' B'. dpi_run (bit_calls d) (beside T m f B c) = Inr (beside (T + 4) m' f' B' c')"
proof -
  have T: "(T + 1) mod 4 = 0" "(T + 1 + 1) mod 4 \<noteq> 0" "(T + 1 + 1 + 1) mod 4 \<noteq> 0" "(T + 1 + 1 + 1 + 1) mod 4 \<noteq> 0"
    using assms(5) by presburger+
  have four: "T + 1 + 1 + 1 + 1 = T + 4" by simp
  obtain B' where 1: "usbdpi_device_to_host (beside T m f B c) d = Inr (beside T m f B' c)"
    using change_beside [OF assms(1,9,10,2)] by blast
  obtain f' where 2: "usbdpi_host_to_device (beside T m f B' c) d = Inr (to_u8 (c_driving c'), beside (T + 1) m' f' B' c')"
    using bit_beside [OF assms(1-4) T(1) assms(6-8,11)] by blast
  have "dpi_run (bit_calls d) (beside T m f B c) = Inr (beside (T + 1 + 1 + 1 + 1) m' f' B' c')"
    using 1 2 hold_beside [OF T(2)] hold_beside [OF T(3)] hold_beside [OF T(4)]
    by (simp add: bit_calls_def numeral_eq_Suc)
  then show ?thesis unfolding four by blast
qed

lemma tick_bits: "4 * k < 2 ^ 32 \<Longrightarrow> drop_bit 2 (of_nat (4 * k) :: u32) = of_nat k"
proof -
  assume "4 * k < (2 :: nat) ^ 32"
  then have "unat (of_nat (4 * k) :: u32) = 4 * k" "unat (of_nat k :: u32) = k"
    by (intro unat_of_nat_small; simp)+
  then have "unat (drop_bit 2 (of_nat (4 * k) :: u32)) = unat (of_nat k :: u32)"
    unfolding unat_drop_bit_eq by (simp only: drop_bit_eq_div) simp
  then show ?thesis by (simp only: word_unat_eq_iff)
qed

lemma calls_run:
  assumes "usb_run (Some usbdpi_data_callback) (\<lambda>pid c. c\<lparr>c_lastrxpid := pid\<rparr>) (c_loglevel c) (of_nat (k + 1))
      (map (\<lambda>d. (False, c_driving c, d)) ds) m c = Inr (m', c')"
    and "c_state c = ST_GET" "\<not> has (c_loglevel c) LOG_BIT" "monitor_ok m"
    and "\<forall>d \<in> set ds. device_drives d \<and> has d D2P_PU \<and> d AND D2P_PU = c_last_pu c"
    and "4 * (k + length ds) < 2 ^ 32" "160 \<le> k" "unat (c_recovery_time c) \<le> 4 * k + 3"
  shows "\<exists>f' B'. dpi_run (concat (map bit_calls ds)) (beside (4 * k + 3) m f B c)
    = Inr (beside (4 * (k + length ds) + 3) m' f' B' c')"
  using assms
proof (induction ds arbitrary: c k m f B)
  case (Cons d ds)
  have k: "4 * (k + 1) < 2 ^ 32" "4 * k + 3 + 1 = 4 * (k + 1)" using Cons.prems(6) by simp_all
  obtain m2 c2 where 1: "rx_monitor m (of_nat (k + 1)) (c_driving c) d c = Inr (m2, c2)"
    "usb_run (Some usbdpi_data_callback) (\<lambda>pid c. c\<lparr>c_lastrxpid := pid\<rparr>) (c_loglevel c) (of_nat (k + 1) + 1)
      (map (\<lambda>d. (False, c_driving c, d)) ds) m2 c2 = Inr (m', c')"
    using Cons.prems(1) by (auto simp: bnd_eq_Inr_iff)
  note l = monitor_listening [OF Cons.prems(4) 1(1)]
  have c2: "c_state c2 = c_state c" "c_driving c2 = c_driving c" "c_loglevel c2 = c_loglevel c"
    "c_recovery_time c2 = c_recovery_time c" "c_last_pu c2 = c_last_pu c"
    using l(2) by (simp_all add: listening_def)
  have T: "(4 * k + 3) mod 4 = (3 :: nat)" "4 * k + 3 + 1 < (2 :: nat) ^ 32" "640 < 4 * k + (3 :: nat)"
    using k Cons.prems(7) by simp_all
  have d: "device_drives d" "has d D2P_PU" "d AND D2P_PU = c_last_pu c" using Cons.prems(5) by simp_all
  have "rx_monitor m (drop_bit 2 (of_nat (4 * k + 3 + 1))) (c_driving c) d c = Inr (m2, c2)"
    unfolding k(2) tick_bits [OF k(1)] by (rule 1(1))
  from bit_calls_beside [OF Cons.prems(2-4) d(2) T Cons.prems(8) d(1,3) this]
  obtain f2 B2 where 2: "dpi_run (bit_calls d) (beside (4 * k + 3) m f B c) = Inr (beside (4 * k + 3 + 4) m2 f2 B2 c2)"
    by blast
  have next_k: "4 * k + 3 + 4 = 4 * (k + 1) + 3" "of_nat (k + 1) + 1 = (of_nat (k + 1 + 1) :: u32)" by simp_all
  obtain f' B' where 3: "dpi_run (concat (map bit_calls ds)) (beside (4 * (k + 1) + 3) m2 f2 B2 c2)
      = Inr (beside (4 * (k + 1 + length ds) + 3) m' f' B' c')"
    using Cons.IH [of c2 "k + 1" m2 f2 B2] 1(2) Cons.prems(2,3,5-8) c2 l(1) unfolding next_k(2) by auto
  show ?case
    using 2 3 unfolding next_k(1) by (auto simp: dpi_run_append)
qed (auto simp: )

section \<open>Properties\<close>

text \<open>
  C29: a data packet that the device sends through the entry points, one change of its signals
  and four clocks per bit time, arrives unchanged in the descriptor that receives: the
  invariant and a model that listens are all that is asked of the state.  The calls change
  the time, the monitor, the state of the bus and the mark that a frame is due, the last PID,
  and the descriptor, which is taken from the free list if none is in use, and nothing else.
\<close>

theorem calls_receive_packet:
  assumes "ctx_inv {} c" "c_state c = ST_GET" "c_mon c = Some m" "mon_ready m"
    and "c_recving c = Some i \<or> c_recving c = None \<and> c_free c = Some i"
    and "pid = USB_PID_DATA0 \<or> pid = USB_PID_DATA1" "length p \<le> 70"
    and "list_all2 (\<lambda>d. presents M_DEVICE (False, 0, d)) ds (packet_lines tail (data_packet pid p))"
    and "\<forall>d \<in> set ds. d AND D2P_PU = c_last_pu c" "c_last_pu c \<noteq> 0" "\<not> has (c_loglevel c) LOG_BIT"
    and "c_tick_bits c = drop_bit 2 (c_tick c)" "unat (c_tick c) mod 4 = 3" "640 < c_tick c"
    and "unat (c_tick c) + 4 * length ds < 2 ^ 32" "c_recovery_time c \<le> c_tick c"
  shows "\<exists>m' t' f B. dpi_run (concat (map bit_calls ds)) c =
      Inr (c\<lparr>c_lastrxpid := pid, c_recving := Some i, c_pool := (c_pool c)[i := t'],
             c_free := (if c_recving c = None then t_next (c_pool c ! i) else c_free c),
             c_tick := c_tick c + of_nat (4 * length ds), c_tick_bits := drop_bit 2 (c_tick c + of_nat (4 * length ds)),
             c_mon := Some m', c_framepend := f, c_bus_state := B\<rparr>)
    \<and> mon_ready m' \<and> wf_transfer t' \<and> holds_packet t' (length p) \<and> payload t' = p
    \<and> take (length p + 3) (t_data t') = data_packet pid p"
proof -
  let ?k = "unat (c_tick c) div 4"
  have T: "4 * ?k + 3 = unat (c_tick c)" using assms(13) by presburger
  have k: "4 * (?k + length ds) < 2 ^ 32" "160 \<le> ?k" "unat (c_recovery_time c) \<le> 4 * ?k + 3"
    using T assms(14-16) by (simp_all add: word_less_nat_alt word_le_nat_alt)
  have c: "beside (4 * ?k + 3) m (c_framepend c) (c_bus_state c) c = c"
    using assms(3,12) unfolding T by (simp add: beside_def)
  have "presents M_DEVICE (False, c_driving c, d) = presents M_DEVICE (False, 0, d)" for d
    by (rule ext) simp
  then have pres: "list_all2 (presents M_DEVICE) (map (\<lambda>d. (False, c_driving c, d)) ds) (packet_lines tail (data_packet pid p))"
    using assms(8) by (simp add: list.rel_map)
  have drives: "\<forall>d \<in> set ds. device_drives d \<and> has d D2P_PU \<and> d AND D2P_PU = c_last_pu c"
    using assms(8-10) by (auto simp: list_all2_conv_all_nth in_set_conv_nth has_def)
  obtain m' t' where 1: "usb_run (Some usbdpi_data_callback) (\<lambda>pid c. c\<lparr>c_lastrxpid := pid\<rparr>) (c_loglevel c) (of_nat (?k + 1))
      (map (\<lambda>d. (False, c_driving c, d)) ds) m c =
      Inr (m', c\<lparr>c_lastrxpid := pid, c_recving := Some i, c_pool := (c_pool c)[i := t'],
                 c_free := (if c_recving c = None then t_next (c_pool c ! i) else c_free c)\<rparr>)"
    "mon_ready m' \<and> wf_transfer t' \<and> holds_packet t' (length p) \<and> payload t' = p
    \<and> take (length p + 3) (t_data t') = data_packet pid p"
    using received_packet [OF assms(1,2,4-7) pres] by blast
  have "monitor_ok m" using assms(4) by (simp add: mon_ready_def)
  from calls_run [OF 1(1) assms(2,11) this drives k, of "c_framepend c" "c_bus_state c"]
  obtain f B where 2: "dpi_run (concat (map bit_calls ds)) c = Inr (beside (4 * (?k + length ds) + 3) m' f B
      (c\<lparr>c_lastrxpid := pid, c_recving := Some i, c_pool := (c_pool c)[i := t'],
         c_free := (if c_recving c = None then t_next (c_pool c ! i) else c_free c)\<rparr>))"
    unfolding c by blast
  have "4 * (?k + length ds) + 3 = unat (c_tick c) + 4 * length ds" using T by simp
  then have "of_nat (4 * (?k + length ds) + 3) = (of_nat (unat (c_tick c) + 4 * length ds) :: u32)" by (rule arg_cong)
  also have "\<dots> = c_tick c + of_nat (4 * length ds)" unfolding of_nat_add by simp
  finally have e: "of_nat (4 * (?k + length ds) + 3) = c_tick c + of_nat (4 * length ds)" .
  show ?thesis using 1(2) 2 [unfolded beside_def e] by blast
qed

text \<open>The device's differential signals with its pullup on D+.\<close>

definition pulled_signals :: "bool \<times> bool \<Rightarrow> u32" where
  "pulled_signals l = (if fst l then 0x400 else 0) OR (if snd l then 0x100 else 0) OR 0x284"

lemma pulled_signals_present: "list_all2 (\<lambda>d. presents M_DEVICE (False, 0, d)) (map pulled_signals ls) ls"
  by (auto simp: list_all2_conv_all_nth pulled_signals_def device_drives_def swap_lines_def device_lines_def
      has_def prod_eq_iff)

theorem calls_receive_packet_witness:
  "\<exists>c c' t'. dpi_run (concat (map bit_calls (map pulled_signals
       (packet_lines True (data_packet USB_PID_DATA1 [0xFF, 0x7E]))))) c = Inr c'
    \<and> c_recving c' = Some 0 \<and> c_pool c' ! 0 = t' \<and> payload t' = [0xFF, 0x7E]"
proof -
  let ?d = "usbdpi_create 0 True"
  let ?ds = "map pulled_signals (packet_lines True (data_packet USB_PID_DATA1 [0xFF, 0x7E]))"
  let ?c = "?d\<lparr>c_state := ST_GET, c_tick := 643, c_tick_bits := 160, c_last_pu := 4\<rparr>"
  obtain m where m: "usb_monitor_init True = Some m" by (simp add: usb_monitor_init_def)
  have inv: "ctx_inv {} ?c"
    using usbdpi_create_inv [of 0] by (simp add: ctx_inv_def held_def ctx_ok_def owns_def)
  have c: "c_mon ?d = Some m" "c_loglevel ?d = 0" "c_recovery_time ?d = 0" "c_recving ?d = None"
    using m create_sel(5) [of 0 True]
    by (simp_all add: usbdpi_create_def usb_transfer_setup_def bus_reset_def zero_ctx_def Let_def case_prod_beta)
  have free: "c_free ?d = Some 0" "t_next (c_pool ?d ! 0) = Some 1" "length ?ds = 54" by code_simp+
  have pool: "length (c_pool ?d) = 32" using inv_lengths [OF inv] by simp
  have pu: "\<forall>d \<in> set ?ds. d AND D2P_PU = c_last_pu ?c"
    by (auto simp: pulled_signals_def)
  note received = calls_receive_packet [OF inv _ _ init_ready [OF m] _ _ _ pulled_signals_present pu, of 0]
  show ?thesis
    by (rule exI [of _ ?c]) (use received c free pool in \<open>auto simp: has_def\<close>)
qed

end
