(* ===== verification/Spec2Isabelle.thy ===== *)
theory Spec2Isabelle
  imports Reception
begin

text \<open>
  The USB host model \<open>usbdpi\<close>: the C program under \<open>src/dv/cip_infra/usbdpi\<close> that plays the
  USB host, in simulations, against the USB device that is the subject of this repository.

  \<^bold>\<open>The program.\<close>  A SystemVerilog wrapper, \<open>usbdpi.sv\<close>, creates the model
  (\<open>usbdpi_create\<close>), calls \<open>usbdpi_host_to_device\<close> on every clock (four per bit time) and
  \<open>usbdpi_device_to_host\<close> whenever the device's signals change, reads \<open>usbdpi_diags\<close> and
  finally calls \<open>usbdpi_close\<close>.  On the first clock of a bit the host samples the pair D+/D-
  through the bus monitor (\<open>usb_monitor.c\<close>), which decodes NRZI and bit stuffing and reports
  SYNC, PID, bytes and end of packet to \<open>usbdpi_data_callback\<close>; the callback collects them in a
  transfer descriptor taken from a pool (\<open>usb_transfer.c\<close>).  Then the frame timer runs, and
  either the line driver sends one more bit of the descriptor \<open>sending\<close>, or, when it is idle,
  the current step of the test sequence (\<open>usbdpi_test.c\<close>) takes its turn: a control transfer,
  a poll of an endpoint, a protocol test, or the service of the byte streams
  (\<open>usbdpi_stream.c\<close>), which poll the device for packets, check them against an LFSR, queue
  them and send them back combined with an LFSR of the host.

  \<^bold>\<open>The theories that model the code.\<close>  Records, constructors and functions have the names of
  the C code; the fields of \<open>struct usbdpi_ctx\<close> have the prefix \<open>c_\<close>, those of
  \<open>usbdpi_stream_t\<close> \<open>s_\<close>, of \<open>usbdpi_transfer_t\<close> \<open>t_\<close>, of \<open>usb_monitor_ctx\<close> \<open>m_\<close>.

  \<^item> \<open>Prelude\<close>: C integers as words, the results of operations that can fail (an assertion, a
    null pointer, an index outside an array, a loop without end), checked array access, and
    the predicate \<open>wp\<close> with its rules.
  \<^item> \<open>Usb_Defs\<close>: the constants and enumerations of the headers, with the codes that C gives
    them.
  \<^item> \<open>Crc\<close>: \<open>usb_crc.c\<close>.
  \<^item> \<open>Format\<close>, \<open>Utils\<close>: the conversions of \<open>printf\<close> that the log uses, \<open>usb_utils.c\<close> and
    \<open>usb_utils.h\<close>.
  \<^item> \<open>Transfer_Desc\<close>: the operations of \<open>usb_transfer.c\<close> on one descriptor.  A pointer into the
    buffer is an offset, a pointer to a descriptor its index in the pool.
  \<^item> \<open>Monitor\<close>: \<open>usb_monitor.c\<close>, with the log file as the list of the strings written to it,
    the callback as a function and the client's state, of any type, as an argument.
  \<^item> \<open>Dpi_Context\<close>: the context, its creation, the pool (set-up, allocation, release), sending
    a transfer.
  \<^item> \<open>Streams\<close>: \<open>usbdpi_stream.c\<close>.
  \<^item> \<open>Test_Seq\<close>: \<open>usbdpi_test.c\<close>.
  \<^item> \<open>Host_Control\<close>: the transactions of \<open>usbdpi.c\<close>, one definition for each, with every
    host state that it distinguishes.
  \<^item> \<open>Host\<close>: the two entry points, the callback, the frame timer, the choice of the step, the
    line driver, diagnostics and closing.
  \<^item> \<open>System\<close>: the composition.  An event is a clock or a change of the signals, with any
    signals; \<open>reachable\<close> is the closure of the created state under events.

  \<^bold>\<open>What is shown.\<close>

  \<^item> \<open>Crc\<close>: each CRC loop is the remainder of a division of polynomials over GF(2), written
    independently of the code (C3, C4, C9); bursts of up to 16 bits change CRC16 (C5); a token
    with its CRC5 has a fixed residue (C8).  The two right-shifting registers are instances of
    one locale, \<open>reflected_register\<close>.
  \<^item> \<open>Utils\<close>, \<open>Transfer_Desc\<close>: PIDs (C10), little-endian access (C11), tokens and data stages
    are read back as they were built (C6, C7).
  \<^item> \<open>Pool\<close>, \<open>Pool_Refine\<close>: linked lists of descriptors as lists of indices (\<open>lseg\<close>),
    ownership (\<open>owns\<close>), and the refinement of an abstract pool, a stack of free descriptors and
    a queue for each stream, by allocation, release, queueing and discarding (C12 to C16).  The
    locale \<open>descriptor_pool\<close> states what a client relies on.
  \<^item> \<open>Lfsr\<close>, \<open>Stream_Data\<close>: the generator has its full period (C20); what is sent for a packet
    that has been received, and which packets and signatures are accepted (C17 to C19).
  \<^item> \<open>Monitor_Client\<close>, \<open>Invariant\<close>, \<open>Transactions\<close>, \<open>Stream_Inv\<close>, \<open>Host_Inv\<close>: the invariant
    \<open>ctx_inv\<close> and that every operation keeps it.  The monitor reaches its client through the
    locale \<open>monitor_client\<close>, interpreted with \<open>usbdpi_data_callback\<close>.
  \<^item> \<open>System\<close>, \<open>Diagnostics\<close>: what follows for every reachable state: no null pointer and no
    endless walk (C1), disjoint ownership (C2), a change of the signals is always handled
    (C21), bounds (C22), and the diagnostic words can be unpacked (C23).
  \<^item> \<open>Line_Coding\<close>, \<open>Mon_Decode\<close>, \<open>Host_Encode\<close>, \<open>Link\<close>: bit stuffing and NRZI as the USB
    specification has them, and packets end to end: the monitor decodes what is coded (C24),
    the driver codes the descriptor it was given (C25), a SETUP request can be read off the bus
    (C26), and a packet of the device arrives in the receiving descriptor (C27).  C25 and C26
    are about the driver's steps, \<open>host_drive\<close>, in sequence, and C27 about the monitor and its
    client alone.
  \<^item> \<open>Clocks\<close>, \<open>Reception\<close>: the same for the entry points, with the monitor, the frame timer and
    the state of the bus running beside: four clocks per bit send a transfer (C28), and a
    change of the signals and four clocks per bit receive a packet (C29).  Both start after
    tick 640, when the sense bit of VBUS has been set, and before the 32-bit tick wraps.

  \<^bold>\<open>Bounds and assumptions.\<close>  The two loops that walk a linked list, \<open>queue_last\<close> and
  \<open>discard_received\<close>, have \<open>USBDPI_MAX_TRANSFERS = 32\<close> rounds; the invariant makes every list a
  list of different descriptors of the pool, so that it has at most 32 elements, and C1, C15
  and C16 show that the rounds are enough.  Every other loop of the code is a recursion on a count or a
  list.  Sums of 32-bit times and sizes wrap as in C; the subtractions in \<open>size_t\<close> are at 64
  bits.  The states reachable in C2 and C21 to C23, and the start in C1, are those in which the
  log file of the monitor could be opened: otherwise the first clock ends in a failed
  assertion, see \<open>usbdpi_create\<close>.  C1 admits that a run stops at an \<open>assert\<close> of the code, which
  it does when the device does not respond, or at an access beyond an array, which malformed
  packets can cause, for example the report of a packet of one byte in the log, which reads
  the CRC before the buffer.

  \<^bold>\<open>Not modelled.\<close>  The messages on the console; the path of the log file and the text
  \<open>test_msg\<close>, which nothing reads; the compile-time switches \<open>INSERT_ERR_*\<close>, which are off;
  \<open>usbdpi.sv\<close>, whose calls are the events of \<open>System\<close>, in any order; the stand-alone program
  \<open>test_crc.c\<close>; the test bench and the documentation of the device, which are not C.

  \<^bold>\<open>What modelling showed.\<close>  \<open>transfer_data_start\<close> stores beyond the buffer of a full
  descriptor (\<open>transfer_data_start_full\<close>); \<open>tryTX\<close> sends one byte more than a packet may hold
  (\<open>length_tx_pattern\<close>); the default test sequence stays at \<open>STEP_ENDPT_UNIMPL_SETUP\<close>; a token
  whose last bits complete six ones is sent without the stuffed bit, which is why the coding
  in \<open>Line_Coding\<close> has a flag for the end of the packet; a second test initialisation loses
  the queued descriptors; a \<open>SYNC\<close> that arrives while the host is not receiving leaves the
  previous packet in place, and the next is appended to it.
\<close>

end
